theory Spec2Isabelle
  imports Complex_Main "HOL-Library.Word" "HOL-Library.Product_Lexorder"
begin

section \<open>Data model of earlyoom (kill.h, meminfo.h)\<close>

text \<open>
  Conventions of the embedding.
  \<^item> A C \<open>int\<close> or \<open>long long\<close> is an Isabelle \<open>int\<close>: signed overflow is undefined in C,
    so the model describes the executions in which it does not happen.
  \<^item> An \<open>unsigned\<close> is a \<open>32 word\<close>, an \<open>unsigned long\<close> a \<open>64 word\<close> (LP64); their
    arithmetic wraps. A cast from unsigned to \<open>int\<close> is \<open>sint\<close>.
  \<^item> A \<open>double\<close> is the real number it denotes (the percentages are finite); comparisons
    of finite doubles are comparisons of these reals. Arithmetic on doubles rounds, and
    the roundings are not modelled: the headroom products of
    \<open>sleep_time_ms\<close> are a parameter of the model (\<open>double_unit\<close>).
  \<^item> A \<open>regex_t*\<close> is \<open>None\<close> for \<open>NULL\<close> and otherwise the matching predicate of the
    compiled expression: \<open>regexec(r, s, 0, NULL, 0) == 0\<close> is \<open>r s\<close>.
  \<^item> Functions of \<open>meminfo.c\<close>, the C library and the kernel are not part of the sources;
    what they return is an input of the model.
\<close>

type_synonym regex = "string \<Rightarrow> bool"

text \<open>The numbers of the two signals on Linux (\<open>signal.h\<close>).\<close>

definition SIGKILL :: int where
  "SIGKILL = 9"

definition SIGTERM :: int where
  "SIGTERM = 15"

record poll_loop_args =
  mem_high_percent :: real
  mem_term_percent :: real
  mem_kill_percent :: real
  mem_emerg_percent :: real
  swap_term_percent :: real
  swap_kill_percent :: real
  ignore_oom_score_adj :: bool
  notify :: bool
  prefer_regex :: "regex option"
  avoid_regex :: "regex option"
  avoid_users :: "regex option"
  prefer_old :: "regex option"
  report_interval_ms :: int
  dryrun :: bool
  nice :: bool
  emerg_kill :: "string option"

record meminfo =
  MemTotalKiB :: int
  MemTotalMiB :: int
  MemAvailableMiB :: int
  SwapTotalMiB :: int
  SwapTotalKiB :: int
  SwapFreeMiB :: int
  MemAvailablePercent :: real
  SwapFreePercent :: real

section \<open>Adaptive sleep (main.c, sleep_time_ms)\<close>

text \<open>
  Lines 395 and 399 of \<open>main.c\<close> evaluate
  \<open>(long long)((percent - term_percent) * 10 * (double)total_mib)\<close> in the machine's
  double arithmetic: a conversion, a subtraction and two multiplications, each of them
  rounded, and the truncating cast. No arithmetic on doubles is done in this theory:
  the value of that expression is a parameter of the model, a function of its three
  operands.
\<close>

type_synonym double_unit = "real \<Rightarrow> real \<Rightarrow> int \<Rightarrow> int"

text \<open>The values the casts of lines 395 and 399 produce.\<close>

definition mem_headroom_cast :: "double_unit \<Rightarrow> poll_loop_args \<Rightarrow> meminfo \<Rightarrow> int" where
  "mem_headroom_cast fp args m =
     fp (MemAvailablePercent m) (mem_term_percent args) (MemTotalMiB m)"

definition swap_headroom_cast :: "double_unit \<Rightarrow> poll_loop_args \<Rightarrow> meminfo \<Rightarrow> int" where
  "swap_headroom_cast fp args m =
     fp (SwapFreePercent m) (swap_term_percent args) (SwapTotalMiB m)"

text \<open>
  Lines 396 to 410 of \<open>main.c\<close>, from the two values the casts of lines 395 and 399
  produce. Both headrooms are non-negative when they are divided, so C's truncating
  division is \<open>div\<close>.
\<close>

definition sleep_time_from :: "int \<Rightarrow> int \<Rightarrow> 32 word" where
  "sleep_time_from mem_cast swap_cast =
     (let mem_fill_rate = 6000;
          swap_fill_rate = 800;
          min_sleep = 100;
          max_sleep = 1000;
          mem_headroom_kib = (if mem_cast < 0 then 0 else mem_cast);
          swap_headroom_kib = (if swap_cast < 0 then 0 else swap_cast);
          ms = mem_headroom_kib div mem_fill_rate + swap_headroom_kib div swap_fill_rate
      in if ms < min_sleep then word_of_int min_sleep
         else if ms > max_sleep then word_of_int max_sleep
         else word_of_int ms)"

text \<open>The function \<open>sleep_time_ms\<close>, lines 386 to 411.\<close>

definition sleep_time_ms :: "double_unit \<Rightarrow> poll_loop_args \<Rightarrow> meminfo \<Rightarrow> 32 word" where
  "sleep_time_ms fp args m =
     sleep_time_from (mem_headroom_cast fp args m) (swap_headroom_cast fp args m)"

text \<open>The clamp the comment above \<open>sleep_time_ms\<close> promises, as a function on integers.\<close>

definition clamp_ms :: "int \<Rightarrow> int" where
  "clamp_ms ms = max 100 (min 1000 ms)"

section \<open>The control loop (main.c, poll_loop)\<close>

text \<open>
  The variables \<open>poll_loop\<close> keeps across iterations. \<open>sleep_ms\<close> is declared without an
  initial value: the state the loop starts in takes its content as a parameter.
\<close>

record poll_state =
  sleep_ms :: "32 word"
  report_countdown_ms :: int
  hystis :: int
  emergency_invoked :: bool
  emergency_timeout_ms :: int
  current_setpoint :: real

definition EMERGENCY_TIMEOUT :: int where
  "EMERGENCY_TIMEOUT = 30000"

definition poll_init :: "32 word \<Rightarrow> poll_state" where
  "poll_init indeterminate =
     \<lparr>sleep_ms = indeterminate, report_countdown_ms = 0, hystis = 0,
      emergency_invoked = False, emergency_timeout_ms = 0, current_setpoint = 0\<rparr>"

text \<open>The defaults \<open>main\<close> starts from (main.c, lines 82 to 90); omitted fields are zero.\<close>

definition default_args :: poll_loop_args where
  "default_args =
     \<lparr>mem_high_percent = 15, mem_term_percent = 10, mem_kill_percent = 5,
      mem_emerg_percent = 0, swap_term_percent = 10, swap_kill_percent = 5,
      ignore_oom_score_adj = False, notify = False,
      prefer_regex = None, avoid_regex = None, avoid_users = None, prefer_old = None,
      report_interval_ms = 1000, dryrun = False, nice = False, emerg_kill = None\<rparr>"

text \<open>The decision at the head of an iteration (main.c, lines 459 to 494).\<close>

record decision =
  d_sig :: int
  d_high :: bool
  d_state :: poll_state

definition decide :: "poll_loop_args \<Rightarrow> meminfo \<Rightarrow> poll_state \<Rightarrow> decision" where
  "decide args m s =
     (if emerg_kill args \<noteq> None \<and> emergency_timeout_ms s \<le> 0
         \<and> MemAvailablePercent m \<le> mem_emerg_percent args
         \<and> SwapFreePercent m \<le> swap_kill_percent args
      then \<lparr>d_sig = SIGKILL, d_high = False,
            d_state = s\<lparr>emergency_invoked := True, current_setpoint := mem_emerg_percent args\<rparr>\<rparr>
      else if MemAvailablePercent m \<le> mem_kill_percent args
         \<and> SwapFreePercent m \<le> swap_kill_percent args
      then \<lparr>d_sig = SIGKILL, d_high = False,
            d_state = s\<lparr>current_setpoint := mem_kill_percent args\<rparr>\<rparr>
      else if MemAvailablePercent m \<le> mem_term_percent args
         \<and> SwapFreePercent m \<le> swap_term_percent args
      then \<lparr>d_sig = SIGTERM, d_high = False,
            d_state = s\<lparr>current_setpoint := mem_term_percent args\<rparr>\<rparr>
      else if hystis s > 0
      then (if MemAvailablePercent m \<le> mem_high_percent args
            then \<lparr>d_sig = hystis s, d_high = True,
                  d_state = s\<lparr>current_setpoint := mem_high_percent args\<rparr>\<rparr>
            else \<lparr>d_sig = 0, d_high = False,
                  d_state = s\<lparr>hystis := 0, current_setpoint := 0\<rparr>\<rparr>)
      else \<lparr>d_sig = 0, d_high = False, d_state = s\<rparr>)"

text \<open>The first line \<open>update_status\<close> writes to the status file.\<close>

definition status_code :: "int \<Rightarrow> bool \<Rightarrow> bool \<Rightarrow> string" where
  "status_code sg emergency high =
     (if high then ''high''
      else if emergency then ''emergency''
      else if sg = SIGTERM then ''term''
      else if sg = SIGKILL then ''kill''
      else ''ok'')"

text \<open>
  What an iteration does after the decision. The calls it makes do not touch the
  loop's variables, so an iteration is a function of the snapshot and the state;
  \<open>action\<close> names the call: \<open>kill_emergency(args)\<close>, \<open>kill_largest_process(args, sig)\<close>,
  the periodic report, or none.
\<close>

datatype action = Emergency | KillLargest int | Report | Idle

text \<open>
  Lines 499 to 514: the call, the new \<open>sleep_ms\<close> and the hysteresis signal. \<open>fp\<close> is the
  double unit \<open>sleep_time_ms\<close> computes its headrooms with.
\<close>

definition act_on :: "double_unit \<Rightarrow> poll_loop_args \<Rightarrow> meminfo \<Rightarrow> decision \<Rightarrow> action \<times> poll_state" where
  "act_on fp args m d =
     (let sg = d_sig d; s1 = d_state d in
      if sg \<noteq> 0 then
        (if emergency_invoked s1
         then (Emergency,
               s1\<lparr>sleep_ms := 2000, emergency_timeout_ms := EMERGENCY_TIMEOUT,
                  emergency_invoked := False, hystis := sg\<rparr>)
         else (KillLargest sg,
               s1\<lparr>sleep_ms := (if hystis s1 = SIGKILL then 50 else 500), hystis := sg\<rparr>))
      else if report_interval_ms args \<noteq> 0 \<and> report_countdown_ms s1 \<le> 0
      then (Report,
            s1\<lparr>report_countdown_ms := report_interval_ms args,
               sleep_ms := sleep_time_ms fp args m\<rparr>)
      else (Idle, s1))"

text \<open>Lines 517 to 520: the two countdowns, after the sleep.\<close>

definition count_down :: "poll_state \<Rightarrow> poll_state" where
  "count_down s2 =
     (let s3 = s2\<lparr>report_countdown_ms := report_countdown_ms s2 - sint (sleep_ms s2)\<rparr>
      in if emergency_timeout_ms s3 > 0
         then s3\<lparr>emergency_timeout_ms := emergency_timeout_ms s3 - sint (sleep_ms s3)\<rparr>
         else s3)"

text \<open>
  One iteration of the loop (lines 459 to 520). \<open>out_usleep\<close> is the argument of the
  \<open>usleep\<close> that ends the iteration, in microseconds: an unsigned product.
\<close>

record poll_out =
  out_action :: action
  out_status :: string
  out_usleep :: "32 word"

definition poll_iter :: "double_unit \<Rightarrow> poll_loop_args \<Rightarrow> meminfo \<Rightarrow> poll_state \<Rightarrow> poll_state \<times> poll_out" where
  "poll_iter fp args m s =
     (let d = decide args m s;
          a = act_on fp args m d;
          s2 = snd a
      in (count_down s2,
          \<lparr>out_action = fst a,
           out_status = status_code (d_sig d) (emergency_invoked (d_state d)) (d_high d),
           out_usleep = sleep_ms s2 * 1000\<rparr>))"

text \<open>
  The loop never ends. A run is what it does on the snapshots of its first iterations:
  the outputs of the iterations, and the state after them.
\<close>

fun poll_run :: "double_unit \<Rightarrow> poll_loop_args \<Rightarrow> meminfo list \<Rightarrow> poll_state \<Rightarrow> poll_out list" where
  "poll_run fp args [] s = []"
| "poll_run fp args (m # ms) s = snd (poll_iter fp args m s) # poll_run fp args ms (fst (poll_iter fp args m s))"

fun poll_final :: "double_unit \<Rightarrow> poll_loop_args \<Rightarrow> meminfo list \<Rightarrow> poll_state \<Rightarrow> poll_state" where
  "poll_final fp args [] s = s"
| "poll_final fp args (m # ms) s = poll_final fp args ms (fst (poll_iter fp args m s))"

text \<open>
  The invariant behind the emergency debounce: \<open>acc\<close> microseconds have been slept since
  the last emergency, the flag is down, and the sleep time is one the loop assigns.
\<close>

definition debounce_inv :: "nat \<Rightarrow> poll_state \<Rightarrow> bool" where
  "debounce_inv acc s \<longleftrightarrow>
     \<not> emergency_invoked s \<and> sleep_ms s \<le> 2000
     \<and> 30000000 \<le> emergency_timeout_ms s * 1000 + int acc"

section \<open>The victim selector (kill.c, kill_largest_process)\<close>

definition BADNESS_PREFER :: int where
  "BADNESS_PREFER = 300"

definition BADNESS_AVOID :: int where
  "BADNESS_AVOID = - 300"

definition BADNESS_AVOID_USER :: int where
  "BADNESS_AVOID_USER = - 150"

definition BADNESS_AGE_DIV :: "64 word" where
  "BADNESS_AGE_DIV = 600"

definition MAX_USERLEN :: nat where
  "MAX_USERLEN = 33"

record procinfo =
  pid :: int
  uid :: int
  badness :: int
  VmRSSkiB :: int
  utime :: "64 word"
  stime :: "64 word"
  rtime :: "64 word"
  name :: string
  username :: string

text \<open>The fields of \<open>proctime_t\<close> that \<open>kill.c\<close> reads.\<close>

record proctime =
  c_utime :: "64 word"
  c_stime :: "64 word"
  c_runtime :: "64 word"
  valid :: bool

text \<open>
  One entry of \<open>/proc\<close> as the scan meets it: the name \<open>readdir\<close> returned, and what each
  read of the process returns when the scan makes it. A reader of \<open>meminfo.c\<close> returns a
  negative number for an error; \<open>get_oom_score_adj\<close> and \<open>get_comm\<close> also fill a buffer,
  the second component. \<open>stat\<close> gives the owner of \<open>/proc/PID\<close> or fails (\<open>None\<close>);
  \<open>getpwuid\<close> gives the user's name or \<open>NULL\<close> (\<open>None\<close>). The value of
  \<open>oom_score_adj\<close> and the name are read at two places, so each has two fields.
\<close>

record proc_reads =
  d_name :: string
  r_oom_score :: int
  r_oom_score_adj :: "int \<times> int"
  r_times :: proctime
  r_comm :: "int \<times> string"
  r_stat :: "int option"
  r_getpwuid :: "string option"
  r_vm_rss_kib :: int
  r_oom_score_adj2 :: "int \<times> int"
  r_comm2 :: "int \<times> string"
  r_uid :: int

text \<open>\<open>isnumeric\<close> (lines 33 to 50): the string is not empty and holds digits only.\<close>

definition isdigit :: "char \<Rightarrow> bool" where
  "isdigit c = (48 \<le> (of_char c :: nat) \<and> (of_char c :: nat) \<le> 57)"

fun all_digits :: "string \<Rightarrow> bool" where
  "all_digits [] = True"
| "all_digits (c # cs) = (if isdigit c then all_digits cs else False)"

definition isnumeric :: "string \<Rightarrow> bool" where
  "isnumeric str = (if str = [] then False else all_digits str)"

text \<open>
  \<open>(int)strtol(d_name, NULL, 10)\<close> on a string of digits: the decimal value, held at
  \<open>LONG_MAX\<close>, then cut to the 32 bits of an \<open>int\<close>.
\<close>

fun decimal :: "nat \<Rightarrow> string \<Rightarrow> nat" where
  "decimal acc [] = acc"
| "decimal acc (c # cs) = decimal (acc * 10 + (of_char c - 48)) cs"

definition pid_of_name :: "string \<Rightarrow> int" where
  "pid_of_name str = sint (word_of_int (min (int (decimal 0 str)) (2 ^ 63 - 1)) :: 32 word)"

text \<open>\<open>r && regexec(r, s, 0, NULL, 0) == 0\<close>\<close>

fun matches :: "regex option \<Rightarrow> string \<Rightarrow> bool" where
  "matches None s = False"
| "matches (Some r) s = r s"

text \<open>Why the scan leaves an entry (each \<open>continue\<close> of the loop).\<close>

datatype skip =
  NotNumeric | InitPid | ErrOomScore | ErrOomScoreAdj | ErrComm | ErrStat | ErrUser
  | Type1 | ErrRss | Type2 | Type3 | Type4 | ErrUid

definition cur_init :: "proc_reads \<Rightarrow> procinfo" where
  "cur_init e =
     \<lparr>pid = pid_of_name (d_name e), uid = - 1, badness = - 1, VmRSSkiB = - 1,
      utime = 0, stime = 0, rtime = 0, name = [], username = []\<rparr>"

text \<open>Lines 175 to 193: the kernel's score, less a positive \<open>oom_score_adj\<close> under \<open>-i\<close>.\<close>

definition score_oom :: "poll_loop_args \<Rightarrow> proc_reads \<Rightarrow> procinfo \<Rightarrow> skip + procinfo" where
  "score_oom args e cur =
     (if r_oom_score e < 0 then Inl ErrOomScore
      else let cur = cur\<lparr>badness := r_oom_score e\<rparr> in
        if ignore_oom_score_adj args then
          (if fst (r_oom_score_adj e) < 0 then Inl ErrOomScoreAdj
           else if snd (r_oom_score_adj e) > 0
           then Inr (cur\<lparr>badness := badness cur - snd (r_oom_score_adj e)\<rparr>)
           else Inr cur)
        else Inr cur)"

text \<open>Lines 196 to 204: the times, read for every process when \<open>prefer_old\<close> is set.\<close>

definition score_times :: "poll_loop_args \<Rightarrow> proc_reads \<Rightarrow> procinfo \<Rightarrow> procinfo" where
  "score_times args e cur =
     (if prefer_old args \<noteq> None \<and> valid (r_times e)
      then cur\<lparr>utime := c_utime (r_times e), stime := c_stime (r_times e),
               rtime := c_runtime (r_times e)\<rparr>
      else cur)"

text \<open>
  Lines 206 to 223: the name and the three expressions matched against it. The age
  bonus is \<open>(int)(ptimes.c_runtime / BADNESS_AGE_DIV)\<close>: an unsigned division, cut to
  the 32 bits of an \<open>int\<close>.
\<close>

definition score_name :: "poll_loop_args \<Rightarrow> proc_reads \<Rightarrow> procinfo \<Rightarrow> skip + procinfo" where
  "score_name args e cur =
     (if prefer_regex args \<noteq> None \<or> avoid_regex args \<noteq> None \<or> prefer_old args \<noteq> None then
        (if fst (r_comm e) < 0 then Inl ErrComm
         else let cur = cur\<lparr>name := snd (r_comm e)\<rparr>;
                  cur = (if matches (prefer_regex args) (name cur)
                         then cur\<lparr>badness := badness cur + BADNESS_PREFER\<rparr> else cur);
                  cur = (if matches (avoid_regex args) (name cur)
                         then cur\<lparr>badness := badness cur + BADNESS_AVOID\<rparr> else cur);
                  cur = (if matches (prefer_old args) (name cur) \<and> valid (r_times e)
                         then cur\<lparr>badness := badness cur
                                 + sint (ucast (c_runtime (r_times e) div BADNESS_AGE_DIV) :: 32 word)\<rparr>
                         else cur)
              in Inr cur)
      else Inr cur)"

text \<open>Lines 225 to 241: the owner of \<open>/proc/PID\<close> and the expression for users.\<close>

definition score_user :: "poll_loop_args \<Rightarrow> proc_reads \<Rightarrow> procinfo \<Rightarrow> skip + procinfo" where
  "score_user args e cur =
     (if avoid_users args \<noteq> None then
        (case r_stat e of
           None \<Rightarrow> Inl ErrStat
         | Some st_uid \<Rightarrow>
             (case r_getpwuid e of
                None \<Rightarrow> Inl ErrUser
              | Some pw_name \<Rightarrow>
                  let cur = cur\<lparr>username := take MAX_USERLEN pw_name\<rparr>
                  in if matches (avoid_users args) (username cur)
                     then Inr (cur\<lparr>badness := badness cur + BADNESS_AVOID_USER\<rparr>)
                     else Inr cur))
      else Inr cur)"

text \<open>
  Lines 156 to 243: from the directory entry to the badness. An entry that comes
  through is counted as a candidate.
\<close>

definition examine :: "poll_loop_args \<Rightarrow> proc_reads \<Rightarrow> skip + procinfo" where
  "examine args e =
     (if \<not> isnumeric (d_name e) then Inl NotNumeric
      else if pid (cur_init e) \<le> 1 then Inl InitPid
      else case score_oom args e (cur_init e) of
             Inl why \<Rightarrow> Inl why
           | Inr cur \<Rightarrow>
               (case score_name args e (score_times args e cur) of
                  Inl why \<Rightarrow> Inl why
                | Inr cur \<Rightarrow> score_user args e cur))"

text \<open>
  Lines 246 to 304: the candidate against the victim so far. The resident set size and
  a fresh \<open>oom_score_adj\<close> are read only when the badness does not lose.
\<close>

definition challenge :: "proc_reads \<Rightarrow> procinfo \<Rightarrow> procinfo \<Rightarrow> skip + procinfo" where
  "challenge e victim cur =
     (if badness cur < badness victim then Inl Type1
      else if r_vm_rss_kib e < 0 then Inl ErrRss
      else let cur = cur\<lparr>VmRSSkiB := r_vm_rss_kib e\<rparr> in
        if VmRSSkiB cur = 0 then Inl Type2
        else if badness cur = badness victim \<and> VmRSSkiB cur \<le> VmRSSkiB victim then Inl Type3
        else if fst (r_oom_score_adj2 e) < 0 then Inl ErrOomScoreAdj
        else if snd (r_oom_score_adj2 e) = - 1000 then Inl Type4
        else if name cur = [] \<and> fst (r_comm2 e) < 0 then Inl ErrComm
        else let cur = (if name cur = [] then cur\<lparr>name := snd (r_comm2 e)\<rparr> else cur) in
          if r_uid e < 0 then Inl ErrUid
          else Inr (cur\<lparr>uid := r_uid e\<rparr>))"

text \<open>The loop over \<open>/proc\<close> (lines 128 and 144 to 310), from \<open>victim = { 0 }\<close>.\<close>

record scan_state =
  victim :: procinfo
  candidates :: int

definition victim_zero :: procinfo where
  "victim_zero =
     \<lparr>pid = 0, uid = 0, badness = 0, VmRSSkiB = 0, utime = 0, stime = 0, rtime = 0,
      name = [], username = []\<rparr>"

definition scan_step :: "poll_loop_args \<Rightarrow> scan_state \<Rightarrow> proc_reads \<Rightarrow> scan_state" where
  "scan_step args st e =
     (case examine args e of
        Inl why \<Rightarrow> st
      | Inr cur \<Rightarrow>
          (case challenge e (victim st) cur of
             Inl why \<Rightarrow> st\<lparr>candidates := candidates st + 1\<rparr>
           | Inr cur \<Rightarrow> st\<lparr>victim := cur, candidates := candidates st + 1\<rparr>))"

fun scan_from :: "poll_loop_args \<Rightarrow> scan_state \<Rightarrow> proc_reads list \<Rightarrow> scan_state" where
  "scan_from args st [] = st"
| "scan_from args st (e # es) = scan_from args (scan_step args st e) es"

definition scan_procs :: "poll_loop_args \<Rightarrow> proc_reads list \<Rightarrow> scan_state" where
  "scan_procs args es = scan_from args \<lparr>victim = victim_zero, candidates = 0\<rparr> es"

text \<open>
  The vocabulary of the selection order. A candidate survives when it passes every filter
  that does not compare it with the victim so far; \<open>candidate\<close> is the struct the scan has
  filled for it by line 304; its key is the pair the comparisons of lines 246 and 267
  order lexicographically.
\<close>

definition fill :: "proc_reads \<Rightarrow> procinfo \<Rightarrow> procinfo" where
  "fill e cur =
     cur\<lparr>VmRSSkiB := r_vm_rss_kib e,
         name := (if name cur = [] then snd (r_comm2 e) else name cur),
         uid := r_uid e\<rparr>"

definition survives :: "poll_loop_args \<Rightarrow> proc_reads \<Rightarrow> bool" where
  "survives args e =
     (case examine args e of
        Inl why \<Rightarrow> False
      | Inr cur \<Rightarrow>
          0 < r_vm_rss_kib e \<and> 0 \<le> fst (r_oom_score_adj2 e) \<and> snd (r_oom_score_adj2 e) \<noteq> - 1000
          \<and> (name cur = [] \<longrightarrow> 0 \<le> fst (r_comm2 e)) \<and> 0 \<le> r_uid e)"

definition candidate :: "poll_loop_args \<Rightarrow> proc_reads \<Rightarrow> procinfo" where
  "candidate args e = (case examine args e of Inl why \<Rightarrow> victim_zero | Inr cur \<Rightarrow> fill e cur)"

definition key :: "procinfo \<Rightarrow> int \<times> int" where
  "key p = (badness p, VmRSSkiB p)"

text \<open>The reads the badness of a candidate needs, each only when the scan makes it.\<close>

definition reads_ok :: "poll_loop_args \<Rightarrow> proc_reads \<Rightarrow> bool" where
  "reads_ok args e \<longleftrightarrow>
     0 \<le> r_oom_score e
     \<and> (ignore_oom_score_adj args \<longrightarrow> 0 \<le> fst (r_oom_score_adj e))
     \<and> (prefer_old args \<noteq> None \<longrightarrow> valid (r_times e))
     \<and> (prefer_regex args \<noteq> None \<or> avoid_regex args \<noteq> None \<or> prefer_old args \<noteq> None
          \<longrightarrow> 0 \<le> fst (r_comm e))
     \<and> (avoid_users args \<noteq> None \<longrightarrow> r_stat e \<noteq> None \<and> r_getpwuid e \<noteq> None)"

section \<open>The kill escalator (kill.c, kill_wait)\<close>

text \<open>
  What the daemon does to the outside: \<open>Kill pid sig\<close> is a call \<open>kill(pid, sig)\<close>,
  \<open>Usleep us\<close> a call \<open>usleep(us)\<close>, \<open>Sleep s\<close> a call \<open>sleep(s)\<close>. Log lines and the
  notification helper are left out.
\<close>

datatype event = Kill int int | Usleep nat | Sleep nat

definition SIGTERM_WAIT :: real where
  "SIGTERM_WAIT = 6.0"

definition poll_ms :: nat where
  "poll_ms = 100"

definition EPERM :: int where
  "EPERM = 1"

definition ESRCH :: int where
  "ESRCH = 3"

text \<open>
  The world \<open>kill_wait\<close> runs in. A call of \<open>kill\<close> gives 0, or fails and leaves an
  \<open>errno\<close>: its result is 0 or that \<open>errno\<close>. \<open>kw_kill\<close> is the result of the first
  call, \<open>kw_kill_esc i\<close> of the call that escalates in tick \<open>i\<close>; \<open>kw_meminfo i\<close> is what
  \<open>parse_meminfo\<close> returns in tick \<open>i\<close> and \<open>kw_alive i\<close> what \<open>is_alive(pid)\<close> returns there.
\<close>

record kw_env =
  kw_kill :: int
  kw_meminfo :: "nat \<Rightarrow> meminfo"
  kw_kill_esc :: "nat \<Rightarrow> int"
  kw_alive :: "nat \<Rightarrow> bool"

text \<open>
  \<open>kill_wait\<close> returns 0 (\<open>Inr ()\<close>), or the result of a failed \<open>kill\<close> with its
  \<open>errno\<close>, or -1 with \<open>errno = ETIME\<close>. The log line written between a failed
  \<open>kill\<close> and the return is taken to leave \<open>errno\<close> as it is.
\<close>

datatype kw_error = KillFailed int | Timeout

text \<open>
  The condition of line 100. \<open>secs\<close> is the float nearest to \<open>i * poll_ms / 1000\<close>;
  rounding to a float is monotone and 6 is a float, so \<open>secs >= SIGTERM_WAIT\<close> holds
  exactly when the quotient is at least 6.
\<close>

definition escalation_due :: "poll_loop_args \<Rightarrow> kw_env \<Rightarrow> nat \<Rightarrow> bool" where
  "escalation_due args env i \<longleftrightarrow>
     SIGTERM_WAIT \<le> real (i * poll_ms) / 1000
     \<or> (MemAvailablePercent (kw_meminfo env i) \<le> mem_kill_percent args
        \<and> SwapFreePercent (kw_meminfo env i) \<le> swap_kill_percent args)"

text \<open>The loop of lines 93 to 118, from tick \<open>i\<close> with the signal \<open>sg\<close> sent last.\<close>

function kw_loop ::
  "poll_loop_args \<Rightarrow> kw_env \<Rightarrow> int \<Rightarrow> nat \<Rightarrow> int \<Rightarrow> (kw_error + unit) \<times> event list" where
  "kw_loop args env p i sg =
     (if i < 100 then
        (let esc = (sg \<noteq> SIGKILL \<and> escalation_due args env i) in
         if esc \<and> kw_kill_esc env i \<noteq> 0
         then (Inl (KillFailed (kw_kill_esc env i)), [Kill p SIGKILL])
         else let sg' = (if esc then SIGKILL else sg);
                  sent = (if esc then [Kill p SIGKILL] else [])
              in if \<not> kw_alive env i then (Inr (), sent)
                 else (fst (kw_loop args env p (Suc i) sg'),
                       sent @ Usleep (poll_ms * 1000) # snd (kw_loop args env p (Suc i) sg')))
      else (Inl Timeout, []))"
  by pat_completeness auto
termination
  by (relation "measure (\<lambda>(args, env, p, i, sg). 100 - i)") auto

text \<open>The sleep of one tick: \<open>usleep(poll_ms * 1000)\<close>.\<close>

abbreviation tick :: event where
  "tick \<equiv> Usleep 100000"

text \<open>Lines 77 to 92, then the loop.\<close>

definition kill_wait ::
  "poll_loop_args \<Rightarrow> kw_env \<Rightarrow> int \<Rightarrow> int \<Rightarrow> (kw_error + unit) \<times> event list" where
  "kill_wait args env p sg =
     (if dryrun args \<and> sg \<noteq> 0 then (Inr (), [])
      else if kw_kill env \<noteq> 0 then (Inl (KillFailed (kw_kill env)), [Kill p sg])
      else if sg = 0 then (Inr (), [Kill p sg])
      else (fst (kw_loop args env p 0 sg), Kill p sg # snd (kw_loop args env p 0 sg)))"

text \<open>
  \<open>kill_largest_process\<close> after the scan (lines 313 to 379): the check for a \<open>/proc\<close>
  that shows the daemon only, the sleep when there is no victim, \<open>kill_wait\<close>, and
  the sleep after \<open>EPERM\<close>.
\<close>

record klp_env =
  klp_procs :: "proc_reads list"
  klp_getpid :: int
  klp_wait :: kw_env

definition kill_largest_process :: "poll_loop_args \<Rightarrow> klp_env \<Rightarrow> int \<Rightarrow> event list" where
  "kill_largest_process args env sg =
     (let st = scan_procs args (klp_procs env);
          v = (if candidates st \<le> 1 \<and> pid (victim st) = klp_getpid env
               then (victim st)\<lparr>pid := 0\<rparr> else victim st)
      in if pid v \<le> 0 then [Sleep 1]
         else let w = kill_wait args (klp_wait env) (pid v) sg
              in if sg \<noteq> 0 \<and> fst w = Inl (KillFailed EPERM) then snd w @ [Sleep 1] else snd w)"

section \<open>The emergency kill (kill.c, kill_emergency)\<close>

definition EMERG_KILL_MAXLEN :: nat where
  "EMERG_KILL_MAXLEN = 512"

definition EMERG_LIST_MAX :: nat where
  "EMERG_LIST_MAX = 64"

definition PROC_LEN_MAX :: nat where
  "PROC_LEN_MAX = 32"

text \<open>
  The tokens \<open>strtok\<close> returns for the separator \<open>","\<close> (lines 395 to 401): the maximal
  runs of other characters, in order; empty runs are passed over.
\<close>

fun strtok_from :: "string \<Rightarrow> string \<Rightarrow> string list" where
  "strtok_from tok [] = (if tok = [] then [] else [tok])"
| "strtok_from tok (c # cs) =
     (if c = CHR '','' then (if tok = [] then strtok_from [] cs else tok # strtok_from [] cs)
      else strtok_from (tok @ [c]) cs)"

definition strtok_all :: "string \<Rightarrow> string list" where
  "strtok_all s = strtok_from [] s"

text \<open>
  The names the loop compares with. \<open>strncpy\<close> writes the first \<open>PROC_LEN_MAX\<close> bytes of
  a token into its row of the zeroed \<open>victim_list\<close>; a row that a token fills has no
  terminator, and the string that starts there runs on into the next row.
\<close>

fun victim_names :: "string list \<Rightarrow> string list" where
  "victim_names [] = []"
| "victim_names (t # ts) =
     (if length t < PROC_LEN_MAX then t
      else take PROC_LEN_MAX t @ (case victim_names ts of [] \<Rightarrow> [] | n # ns \<Rightarrow> n))
     # victim_names ts"

text \<open>
  Where the copies leave their buffers, the behaviour of the C program is undefined:
  a list of \<open>EMERG_KILL_MAXLEN\<close> bytes or more, more tokens than rows, or a last row
  without terminator.
\<close>

definition emerg_overflow :: "string \<Rightarrow> bool" where
  "emerg_overflow s \<longleftrightarrow>
     EMERG_KILL_MAXLEN \<le> length s
     \<or> EMERG_LIST_MAX < length (strtok_all s)
     \<or> (length (strtok_all s) = EMERG_LIST_MAX \<and> PROC_LEN_MAX \<le> length (last (strtok_all s)))"

text \<open>
  One pass over \<open>/proc\<close> for one name (lines 417 to 456). The result of \<open>kill\<close> is not
  looked at.
\<close>

fun em_scan :: "string \<Rightarrow> proc_reads list \<Rightarrow> int \<Rightarrow> int \<times> event list" where
  "em_scan victim_name [] kills = (kills, [])"
| "em_scan victim_name (e # es) kills =
     (if \<not> isnumeric (d_name e) then em_scan victim_name es kills
      else if pid (cur_init e) \<le> 1 then em_scan victim_name es kills
      else if fst (r_comm e) < 0 then em_scan victim_name es kills
      else if snd (r_comm e) = victim_name
      then (fst (em_scan victim_name es (kills + 1)),
            Kill (pid (cur_init e)) SIGKILL # snd (em_scan victim_name es (kills + 1)))
      else em_scan victim_name es kills)"

text \<open>
  The world \<open>kill_emergency\<close> runs in: for the \<open>i\<close>-th name, what \<open>parse_meminfo\<close>
  returns before the scan, and the entries of \<open>/proc\<close> the scan meets.
\<close>

record em_env =
  em_meminfo :: "nat \<Rightarrow> meminfo"
  em_procs :: "nat \<Rightarrow> proc_reads list"

text \<open>The loop over the names (lines 403 to 458), from the \<open>i\<close>-th.\<close>

fun em_loop ::
  "poll_loop_args \<Rightarrow> em_env \<Rightarrow> nat \<Rightarrow> string list \<Rightarrow> int \<Rightarrow> int \<times> event list" where
  "em_loop args env i [] kills = (kills, [])"
| "em_loop args env i (n # ns) kills =
     (if mem_high_percent args < MemAvailablePercent (em_meminfo env i) then (kills, [])
      else let r = em_scan n (em_procs env i) kills;
               r' = em_loop args env (Suc i) ns (fst r)
           in (fst r', snd r @ snd r'))"

text \<open>\<open>kill_emergency\<close>: the number of kills and the calls made; \<open>None\<close> where undefined.\<close>

definition kill_emergency :: "poll_loop_args \<Rightarrow> em_env \<Rightarrow> (int \<times> event list) option" where
  "kill_emergency args env =
     (case emerg_kill args of
        None \<Rightarrow> None
      | Some s \<Rightarrow>
          if emerg_overflow s then None
          else Some (em_loop args env 0 (victim_names (strtok_all s)) 0))"

text \<open>
  The processes one pass is to kill for a name: the numeric entries with a pid above
  1 whose name was read and is that name, byte for byte.
\<close>

definition named :: "string \<Rightarrow> proc_reads list \<Rightarrow> int list" where
  "named victim_name es =
     map (\<lambda>e. pid (cur_init e))
       (filter (\<lambda>e. isnumeric (d_name e) \<and> 1 < pid (cur_init e) \<and> 0 \<le> fst (r_comm e)
                  \<and> snd (r_comm e) = victim_name) es)"

text \<open>
  The names the loop gets to: those before the first whose snapshot shows memory above
  the high watermark.
\<close>

fun processed :: "poll_loop_args \<Rightarrow> em_env \<Rightarrow> nat \<Rightarrow> string list \<Rightarrow> (nat \<times> string) list" where
  "processed args env i [] = []"
| "processed args env i (n # ns) =
     (if mem_high_percent args < MemAvailablePercent (em_meminfo env i) then []
      else (i, n) # processed args env (Suc i) ns)"

text \<open>The pids \<open>kill_emergency\<close> signals from the \<open>i\<close>-th name on, in order.\<close>

definition sent_from :: "poll_loop_args \<Rightarrow> em_env \<Rightarrow> nat \<Rightarrow> string list \<Rightarrow> int list" where
  "sent_from args env i ns =
     concat (map (\<lambda>(j, n). named n (em_procs env j)) (processed args env i ns))"

section \<open>An iteration of the control loop with its calls\<close>

record iter_env =
  it_meminfo :: meminfo
  it_emergency :: em_env
  it_largest :: klp_env

text \<open>
  The calls of one iteration, in order: those of \<open>kill_emergency\<close> or
  \<open>kill_largest_process\<close>, then the sleep that ends the iteration.
\<close>

definition poll_iter_events ::
  "double_unit \<Rightarrow> poll_loop_args \<Rightarrow> iter_env \<Rightarrow> poll_state \<Rightarrow> (poll_state \<times> event list) option" where
  "poll_iter_events fp args env s =
     (let r = poll_iter fp args (it_meminfo env) s;
          pause = Usleep (unat (out_usleep (snd r)))
      in case out_action (snd r) of
           Emergency \<Rightarrow>
             (case kill_emergency args (it_emergency env) of
                None \<Rightarrow> None
              | Some k \<Rightarrow> Some (fst r, snd k @ [pause]))
         | KillLargest sg \<Rightarrow> Some (fst r, kill_largest_process args (it_largest env) sg @ [pause])
         | Report \<Rightarrow> Some (fst r, [pause])
         | Idle \<Rightarrow> Some (fst r, [pause]))"

section \<open>Example data\<close>

text \<open>A snapshot with the given percentages, for the examples.\<close>

definition snapshot_pct :: "real \<Rightarrow> real \<Rightarrow> meminfo" where
  "snapshot_pct mem swap =
     \<lparr>MemTotalKiB = 8192000, MemTotalMiB = 8000, MemAvailableMiB = 0,
      SwapTotalMiB = 1000, SwapTotalKiB = 1024000, SwapFreeMiB = 0,
      MemAvailablePercent = mem, SwapFreePercent = swap\<rparr>"

text \<open>
  A double unit for the examples. It computes the expression without rounding and
  truncates towards zero: what the machine returns when the difference and the two
  products are whole numbers below \<open>2 ^ 53\<close>, as they are for the whole percentages
  of the examples.
\<close>

definition exact_unit :: double_unit where
  "exact_unit percent term_percent total_mib =
     (let x = (percent - term_percent) * 10 * real_of_int total_mib
      in if 0 \<le> x then \<lfloor>x\<rfloor> else \<lceil>x\<rceil>)"

text \<open>The configuration of \<open>earlyoom.conf.sample\<close>, read over the defaults. Each of its
  regular expressions is an alternation anchored at both ends: it matches exactly the
  listed names.\<close>

definition conf_sample_args :: poll_loop_args where
  "conf_sample_args =
     \<lparr>mem_high_percent = 15, mem_term_percent = 10, mem_kill_percent = 5,
      mem_emerg_percent = 2, swap_term_percent = 10, swap_kill_percent = 5,
      ignore_oom_score_adj = False, notify = False,
      prefer_regex = Some (\<lambda>s. s \<in> set [''php-cgi'', ''php-fpm'', ''doveadm'', ''crond'']),
      avoid_regex = Some (\<lambda>s. s \<in> set [''mysqld'', ''mysqld_safe'', ''nginx'', ''yum'', ''puppet'', ''upcp'', ''cpsrvd'']),
      avoid_users = Some (\<lambda>s. s = ''root''),
      prefer_old = Some (\<lambda>s. s = ''php-cgi''),
      report_interval_ms = 300000, dryrun = False, nice = False,
      emerg_kill = Some ''doveadm,php-cgi,zip,dovecot,httpd,php-fpm,restic,nginx''\<rparr>"

text \<open>An emergency, fourteen quiet iterations, and an emergency again.\<close>

definition debounce_run_example :: "meminfo list" where
  "debounce_run_example = snapshot_pct 1 0 # replicate 14 (snapshot_pct 60 80) @ [snapshot_pct 1 0]"

text \<open>A kill iteration, then two quiet ones.\<close>

definition idle_run_example :: "meminfo list" where
  "idle_run_example = [snapshot_pct 4 3, snapshot_pct 60 80, snapshot_pct 60 80]"

text \<open>
  Entries of \<open>/proc\<close> whose reads all succeed: the directory name, the process name, the
  owner's name, \<open>oom_score\<close>, \<open>oom_score_adj\<close>, the resident set size and the run time.
\<close>

definition proc_entry :: "string \<Rightarrow> string \<Rightarrow> string \<Rightarrow> int \<Rightarrow> int \<Rightarrow> int \<Rightarrow> 64 word \<Rightarrow> proc_reads" where
  "proc_entry dname comm user score adj rss runtime =
     \<lparr>d_name = dname, r_oom_score = score, r_oom_score_adj = (0, adj),
      r_times = \<lparr>c_utime = 10, c_stime = 5, c_runtime = runtime, valid = True\<rparr>,
      r_comm = (0, comm), r_stat = Some 1001, r_getpwuid = Some user,
      r_vm_rss_kib = rss, r_oom_score_adj2 = (0, adj), r_comm2 = (0, comm), r_uid = 1001\<rparr>"

definition php_cgi_proc :: proc_reads where
  "php_cgi_proc = proc_entry ''4242'' ''php-cgi'' ''www'' 120 50 51200 7200"

definition mysqld_proc :: proc_reads where
  "mysqld_proc = proc_entry ''977'' ''mysqld'' ''mysql'' 100 0 409600 86400"

definition bash_proc :: proc_reads where
  "bash_proc = proc_entry ''1300'' ''bash'' ''alice'' 70 0 80000 600"

definition kthreadd_proc :: proc_reads where
  "kthreadd_proc = proc_entry ''2'' ''kthreadd'' ''root'' 0 0 0 900000"

text \<open>
  A world for \<open>kill_wait\<close>: the first \<open>kill\<close> succeeds; memory is at 8 and swap at 5
  percent before tick \<open>pressure_from\<close>, at 4 and 3 percent from then on; the \<open>kill\<close> that
  escalates returns \<open>esc_result\<close>; the process is gone from tick \<open>dies_at\<close> on.
\<close>

definition kw_example :: "nat \<Rightarrow> int \<Rightarrow> nat \<Rightarrow> kw_env" where
  "kw_example pressure_from esc_result dies_at =
     \<lparr>kw_kill = 0,
      kw_meminfo = (\<lambda>i. if i < pressure_from then snapshot_pct 8 5 else snapshot_pct 4 3),
      kw_kill_esc = (\<lambda>i. esc_result),
      kw_alive = (\<lambda>i. i < dies_at)\<rparr>"

text \<open>
  A world for \<open>kill_emergency\<close>: memory at 1 percent before the first name and at 20
  percent afterwards; \<open>/proc\<close> holds init, three \<open>doveadm\<close> (the name of one cannot be
  read), an entry that is no process, a \<open>php-cgi\<close> and a longer name.
\<close>

definition em_example :: em_env where
  "em_example =
     \<lparr>em_meminfo = (\<lambda>i. if i = 0 then snapshot_pct 1 0 else snapshot_pct 20 50),
      em_procs = (\<lambda>i. [proc_entry ''1'' ''doveadm'' ''root'' 0 0 4000 100,
                        proc_entry ''301'' ''doveadm'' ''vmail'' 40 0 20000 100,
                        proc_entry ''self'' ''doveadm'' ''vmail'' 40 0 20000 100,
                        php_cgi_proc,
                        proc_entry ''302'' ''doveadm'' ''vmail'' 45 0 30000 100,
                        (proc_entry ''303'' ''doveadm'' ''vmail'' 45 0 30000 100)\<lparr>r_comm := (- 2, [])\<rparr>,
                        proc_entry ''304'' ''doveadm-x'' ''vmail'' 45 0 30000 100])\<rparr>"

text \<open>The world of one iteration: memory at 1 percent, swap at 0 percent.\<close>

definition dryrun_example :: iter_env where
  "dryrun_example =
     \<lparr>it_meminfo = snapshot_pct 1 0,
      it_emergency = em_example,
      it_largest = \<lparr>klp_procs = [php_cgi_proc, bash_proc], klp_getpid = 500,
                     klp_wait = kw_example 100 0 3\<rparr>\<rparr>"

section \<open>Properties of the adaptive sleep\<close>

lemma uint_sleep_time_from:
  "uint (sleep_time_from mh sh) = clamp_ms (max 0 mh div 6000 + max 0 sh div 800)"
proof -
  let ?ms = "max 0 mh div 6000 + max 0 sh div 800"
  have c: "100 \<le> clamp_ms ?ms" "clamp_ms ?ms \<le> 1000"
    by (simp_all add: clamp_ms_def)
  define ms where "ms = ?ms"
  have "sleep_time_from mh sh =
      (if ms < 100 then word_of_int 100 else if ms > 1000 then word_of_int 1000 else word_of_int ms)"
    unfolding ms_def sleep_time_from_def Let_def max_def by (simp only: if_distrib refl) auto
  also have "\<dots> = word_of_int (clamp_ms ms)"
    by (simp only: clamp_ms_def max_def min_def split: if_splits) auto
  finally have "sleep_time_from mh sh = word_of_int (clamp_ms ?ms)"
    by (simp only: ms_def)
  moreover have "uint (word_of_int (clamp_ms ?ms) :: 32 word) = clamp_ms ?ms"
    using c by (simp add: uint_word_of_int take_bit_int_eq_self)
  ultimately show ?thesis by simp
qed

lemma clamp_ms_mono: "a \<le> b \<Longrightarrow> clamp_ms a \<le> clamp_ms b"
  by (simp add: clamp_ms_def max_def min_def)

lemma headroom_sum_mono:
  "mh \<le> mh' \<Longrightarrow> sh \<le> sh' \<Longrightarrow>
     max 0 mh div 6000 + max 0 sh div 800 \<le> max 0 mh' div 6000 + max 0 sh' div (800::int)"
  by (intro add_mono zdiv_mono1) (simp_all add: max_def)

text \<open>
  In C the sum is a \<open>long long\<close>: it cannot overflow, whatever the two casts returned.
\<close>

lemma sleep_time_no_overflow:
  assumes "mh < 2 ^ 63" "sh < 2 ^ 63"
  shows "0 \<le> max 0 mh div 6000 + max 0 sh div 800"
    and "max 0 mh div 6000 + max 0 sh div 800 < (2 ^ 63 :: int)"
proof -
  show "0 \<le> max 0 mh div 6000 + max 0 sh div 800"
    by (simp add: max_def pos_imp_zdiv_nonneg_iff)
  have "max 0 mh div 6000 \<le> (2 ^ 63) div (6000::int)"
    using assms(1) by (intro zdiv_mono1) (simp_all add: max_def)
  moreover have "max 0 sh div 800 \<le> (2 ^ 63) div (800::int)"
    using assms(2) by (intro zdiv_mono1) (simp_all add: max_def)
  ultimately show "max 0 mh div 6000 + max 0 sh div 800 < (2 ^ 63 :: int)"
    by simp
qed

lemma uint_sleep_time_ms:
  "uint (sleep_time_ms fp args m) =
     clamp_ms (max 0 (mem_headroom_cast fp args m) div 6000
               + max 0 (swap_headroom_cast fp args m) div 800)"
  by (simp only: sleep_time_ms_def uint_sleep_time_from)

text \<open>
  Claim C9. Every call of the adaptive sleep computation returns a value between 100 and
  1000 milliseconds; the value is the clamp to that range of
  \<open>headroom_mem_kib / 6000 + headroom_swap_kib / 800\<close>, both headrooms floored at 0; and
  it does not decrease when either headroom grows, or both. The headrooms are the values
  of the two casts, which the double unit \<open>fp\<close> computes from the available percentage,
  the terminal limit and the total of memory and of swap; the statement holds for
  every unit. The last three conjuncts say the same of lines 396 to 410 for every pair
  of cast values.
\<close>

theorem sleep_time_ms_clamp_monotone:
  "100 \<le> uint (sleep_time_ms fp args m) \<and> uint (sleep_time_ms fp args m) \<le> 1000
   \<and> uint (sleep_time_ms fp args m)
       = max 100 (min 1000 (max 0 (mem_headroom_cast fp args m) div 6000
                            + max 0 (swap_headroom_cast fp args m) div 800))
   \<and> mem_headroom_cast fp args m
       = fp (MemAvailablePercent m) (mem_term_percent args) (MemTotalMiB m)
   \<and> swap_headroom_cast fp args m
       = fp (SwapFreePercent m) (swap_term_percent args) (SwapTotalMiB m)
   \<and> (mem_headroom_cast fp args m \<le> mem_headroom_cast fp' args' m'
        \<and> swap_headroom_cast fp args m = swap_headroom_cast fp' args' m' \<longrightarrow>
      sleep_time_ms fp args m \<le> sleep_time_ms fp' args' m')
   \<and> (mem_headroom_cast fp args m = mem_headroom_cast fp' args' m'
        \<and> swap_headroom_cast fp args m \<le> swap_headroom_cast fp' args' m' \<longrightarrow>
      sleep_time_ms fp args m \<le> sleep_time_ms fp' args' m')
   \<and> (mem_headroom_cast fp args m \<le> mem_headroom_cast fp' args' m'
        \<and> swap_headroom_cast fp args m \<le> swap_headroom_cast fp' args' m' \<longrightarrow>
      sleep_time_ms fp args m \<le> sleep_time_ms fp' args' m')
   \<and> uint (sleep_time_from mh sh) = max 100 (min 1000 (max 0 mh div 6000 + max 0 sh div 800))
   \<and> (mh \<le> mh' \<longrightarrow> sleep_time_from mh sh \<le> sleep_time_from mh' sh)
   \<and> (sh \<le> sh' \<longrightarrow> sleep_time_from mh sh \<le> sleep_time_from mh sh')"
proof -
  have r: "100 \<le> uint (sleep_time_ms fp args m)" "uint (sleep_time_ms fp args m) \<le> 1000"
    by (simp_all add: uint_sleep_time_ms clamp_ms_def)
  have f: "uint (sleep_time_ms fp args m)
       = max 100 (min 1000 (max 0 (mem_headroom_cast fp args m) div 6000
                            + max 0 (swap_headroom_cast fp args m) div 800))"
    by (simp only: uint_sleep_time_ms clamp_ms_def)
  have mono: "sleep_time_from a b \<le> sleep_time_from a' b'" if "a \<le> a'" "b \<le> b'" for a b a' b'
    unfolding word_le_def uint_sleep_time_from
    by (rule clamp_ms_mono, rule headroom_sum_mono) (rule that)+
  have j: "sleep_time_ms fp args m \<le> sleep_time_ms fp' args' m'"
    if "mem_headroom_cast fp args m \<le> mem_headroom_cast fp' args' m'"
      "swap_headroom_cast fp args m \<le> swap_headroom_cast fp' args' m'"
    unfolding sleep_time_ms_def by (rule mono) (rule that)+
  have g: "uint (sleep_time_from mh sh) = max 100 (min 1000 (max 0 mh div 6000 + max 0 sh div 800))"
    by (simp only: uint_sleep_time_from clamp_ms_def)
  show ?thesis
  proof (intro conjI impI)
    show "100 \<le> uint (sleep_time_ms fp args m)" "uint (sleep_time_ms fp args m) \<le> 1000"
      by (rule r)+
    show "uint (sleep_time_ms fp args m)
       = max 100 (min 1000 (max 0 (mem_headroom_cast fp args m) div 6000
                            + max 0 (swap_headroom_cast fp args m) div 800))"
      by (rule f)
    show "mem_headroom_cast fp args m
       = fp (MemAvailablePercent m) (mem_term_percent args) (MemTotalMiB m)"
      by (simp only: mem_headroom_cast_def)
    show "swap_headroom_cast fp args m
       = fp (SwapFreePercent m) (swap_term_percent args) (SwapTotalMiB m)"
      by (simp only: swap_headroom_cast_def)
    show "sleep_time_ms fp args m \<le> sleep_time_ms fp' args' m'"
      if "mem_headroom_cast fp args m \<le> mem_headroom_cast fp' args' m'
        \<and> swap_headroom_cast fp args m = swap_headroom_cast fp' args' m'"
      using that by (intro j) (rule conjunct1, assumption, rule eq_refl, rule conjunct2, assumption)
    show "sleep_time_ms fp args m \<le> sleep_time_ms fp' args' m'"
      if "mem_headroom_cast fp args m = mem_headroom_cast fp' args' m'
        \<and> swap_headroom_cast fp args m \<le> swap_headroom_cast fp' args' m'"
      using that by (intro j) (rule eq_refl, rule conjunct1, assumption, rule conjunct2, assumption)
    show "sleep_time_ms fp args m \<le> sleep_time_ms fp' args' m'"
      if "mem_headroom_cast fp args m \<le> mem_headroom_cast fp' args' m'
        \<and> swap_headroom_cast fp args m \<le> swap_headroom_cast fp' args' m'"
      using that by (intro j) (rule conjunct1, assumption, rule conjunct2, assumption)
    show "uint (sleep_time_from mh sh) = max 100 (min 1000 (max 0 mh div 6000 + max 0 sh div 800))"
      by (rule g)
    show "sleep_time_from mh sh \<le> sleep_time_from mh' sh" if "mh \<le> mh'"
      using that by (intro mono order_refl)
    show "sleep_time_from mh sh \<le> sleep_time_from mh sh'" if "sh \<le> sh'"
      using that by (intro mono order_refl)
  qed
qed

theorem sleep_time_ms_clamp_monotone_witness:
  "uint (sleep_time_ms exact_unit default_args (snapshot_pct 25 10)) = 200
   \<and> uint (sleep_time_ms exact_unit default_args (snapshot_pct 40 10)) = 400
   \<and> uint (sleep_time_ms exact_unit default_args (snapshot_pct 25 18)) = 300
   \<and> uint (sleep_time_ms exact_unit default_args (snapshot_pct 5 3)) = 100
   \<and> uint (sleep_time_ms exact_unit default_args (snapshot_pct 100 100)) = 1000
   \<and> sleep_time_ms exact_unit default_args (snapshot_pct 25 10)
       \<le> sleep_time_ms exact_unit default_args (snapshot_pct 40 10)
   \<and> sleep_time_ms exact_unit default_args (snapshot_pct 25 10)
       \<le> sleep_time_ms exact_unit default_args (snapshot_pct 25 18)
   \<and> sleep_time_ms exact_unit default_args (snapshot_pct 5 3)
       \<le> sleep_time_ms exact_unit default_args (snapshot_pct 25 18)
   \<and> uint (sleep_time_from 1200000 80000) = 300
   \<and> sleep_time_from 1200000 0 \<le> sleep_time_from 3000000 0
   \<and> sleep_time_from 1200000 0 \<le> sleep_time_from 1200000 80000"
proof -
  have h: "mem_headroom_cast exact_unit default_args (snapshot_pct 25 10) = 1200000"
    "swap_headroom_cast exact_unit default_args (snapshot_pct 25 10) = 0"
    "mem_headroom_cast exact_unit default_args (snapshot_pct 40 10) = 2400000"
    "swap_headroom_cast exact_unit default_args (snapshot_pct 40 10) = 0"
    "mem_headroom_cast exact_unit default_args (snapshot_pct 25 18) = 1200000"
    "swap_headroom_cast exact_unit default_args (snapshot_pct 25 18) = 80000"
    "mem_headroom_cast exact_unit default_args (snapshot_pct 5 3) = - 400000"
    "swap_headroom_cast exact_unit default_args (snapshot_pct 5 3) = - 70000"
    "mem_headroom_cast exact_unit default_args (snapshot_pct 100 100) = 7200000"
    "swap_headroom_cast exact_unit default_args (snapshot_pct 100 100) = 900000"
    by (simp_all add: mem_headroom_cast_def swap_headroom_cast_def exact_unit_def
        default_args_def snapshot_pct_def)
  note formula = conjunct2 [THEN conjunct2, THEN conjunct1]
  note mem_grows = conjunct2 [THEN conjunct2, THEN conjunct2, THEN conjunct2, THEN conjunct2,
      THEN conjunct1]
  note swap_grows = conjunct2 [THEN conjunct2, THEN conjunct2, THEN conjunct2, THEN conjunct2,
      THEN conjunct2, THEN conjunct1]
  note both_grow = conjunct2 [THEN conjunct2, THEN conjunct2, THEN conjunct2, THEN conjunct2,
      THEN conjunct2, THEN conjunct2, THEN conjunct1]
  note lines = conjunct2 [THEN conjunct2, THEN conjunct2, THEN conjunct2, THEN conjunct2,
      THEN conjunct2, THEN conjunct2, THEN conjunct2]
  note a = sleep_time_ms_clamp_monotone [of exact_unit default_args "snapshot_pct 25 10"
      exact_unit default_args "snapshot_pct 40 10" 1200000 80000 3000000 80000]
  note b = sleep_time_ms_clamp_monotone [of exact_unit default_args "snapshot_pct 25 10"
      exact_unit default_args "snapshot_pct 25 18" 1200000 0 3000000 80000]
  note c = sleep_time_ms_clamp_monotone [of exact_unit default_args "snapshot_pct 5 3"
      exact_unit default_args "snapshot_pct 25 18" 0 0 0 0]
  note d = sleep_time_ms_clamp_monotone [of exact_unit default_args "snapshot_pct 40 10"
      exact_unit default_args "snapshot_pct 25 18" 0 0 0 0]
  note e = sleep_time_ms_clamp_monotone [of exact_unit default_args "snapshot_pct 25 18"
      exact_unit default_args "snapshot_pct 100 100" 0 0 0 0]
  note f = sleep_time_ms_clamp_monotone [of exact_unit default_args "snapshot_pct 100 100"
      exact_unit default_args "snapshot_pct 100 100" 0 0 0 0]
  have "uint (sleep_time_ms exact_unit default_args (snapshot_pct 25 10)) = 200"
    using a [THEN formula] unfolding h by simp
  moreover have "uint (sleep_time_ms exact_unit default_args (snapshot_pct 40 10)) = 400"
    using d [THEN formula] unfolding h by simp
  moreover have "uint (sleep_time_ms exact_unit default_args (snapshot_pct 25 18)) = 300"
    using e [THEN formula] unfolding h by simp
  moreover have "uint (sleep_time_ms exact_unit default_args (snapshot_pct 5 3)) = 100"
    using c [THEN formula] unfolding h by simp
  moreover have "uint (sleep_time_ms exact_unit default_args (snapshot_pct 100 100)) = 1000"
    using f [THEN formula] unfolding h by simp
  moreover have "sleep_time_ms exact_unit default_args (snapshot_pct 25 10)
      \<le> sleep_time_ms exact_unit default_args (snapshot_pct 40 10)"
    using a [THEN mem_grows] unfolding h by simp
  moreover have "sleep_time_ms exact_unit default_args (snapshot_pct 25 10)
      \<le> sleep_time_ms exact_unit default_args (snapshot_pct 25 18)"
    using b [THEN swap_grows] unfolding h by simp
  moreover have "sleep_time_ms exact_unit default_args (snapshot_pct 5 3)
      \<le> sleep_time_ms exact_unit default_args (snapshot_pct 25 18)"
    using c [THEN both_grow] unfolding h by simp
  moreover have "uint (sleep_time_from 1200000 80000) = 300"
    using a [THEN lines, THEN conjunct1] by simp
  moreover have "sleep_time_from 1200000 0 \<le> sleep_time_from 3000000 0"
    using b [THEN lines, THEN conjunct2, THEN conjunct1] by simp
  moreover have "sleep_time_from 1200000 0 \<le> sleep_time_from 1200000 80000"
    using b [THEN lines, THEN conjunct2, THEN conjunct2] by simp
  ultimately show ?thesis
    by (intro conjI)
qed

section \<open>Properties of the control loop\<close>

lemma decide_cases [case_names emergency kill sigterm high clear none]:
  fixes args :: poll_loop_args and m :: meminfo and s :: poll_state
  defines "E \<equiv> emerg_kill args \<noteq> None \<and> emergency_timeout_ms s \<le> 0
      \<and> MemAvailablePercent m \<le> mem_emerg_percent args
      \<and> SwapFreePercent m \<le> swap_kill_percent args"
    and "K \<equiv> MemAvailablePercent m \<le> mem_kill_percent args
      \<and> SwapFreePercent m \<le> swap_kill_percent args"
    and "T \<equiv> MemAvailablePercent m \<le> mem_term_percent args
      \<and> SwapFreePercent m \<le> swap_term_percent args"
  obtains
    (emergency) "E"
      "decide args m s = \<lparr>d_sig = SIGKILL, d_high = False,
         d_state = s\<lparr>emergency_invoked := True, current_setpoint := mem_emerg_percent args\<rparr>\<rparr>"
  | (kill) "\<not> E" "K"
      "decide args m s = \<lparr>d_sig = SIGKILL, d_high = False,
         d_state = s\<lparr>current_setpoint := mem_kill_percent args\<rparr>\<rparr>"
  | (sigterm) "\<not> E" "\<not> K" "T"
      "decide args m s = \<lparr>d_sig = SIGTERM, d_high = False,
         d_state = s\<lparr>current_setpoint := mem_term_percent args\<rparr>\<rparr>"
  | (high) "\<not> E" "\<not> K" "\<not> T" "hystis s > 0" "MemAvailablePercent m \<le> mem_high_percent args"
      "decide args m s = \<lparr>d_sig = hystis s, d_high = True,
         d_state = s\<lparr>current_setpoint := mem_high_percent args\<rparr>\<rparr>"
  | (clear) "\<not> E" "\<not> K" "\<not> T" "hystis s > 0" "\<not> MemAvailablePercent m \<le> mem_high_percent args"
      "decide args m s = \<lparr>d_sig = 0, d_high = False,
         d_state = s\<lparr>hystis := 0, current_setpoint := 0\<rparr>\<rparr>"
  | (none) "\<not> E" "\<not> K" "\<not> T" "\<not> hystis s > 0"
      "decide args m s = \<lparr>d_sig = 0, d_high = False, d_state = s\<rparr>"
proof -
  have eq: "decide args m s =
     (if E
      then \<lparr>d_sig = SIGKILL, d_high = False,
            d_state = s\<lparr>emergency_invoked := True, current_setpoint := mem_emerg_percent args\<rparr>\<rparr>
      else if K
      then \<lparr>d_sig = SIGKILL, d_high = False,
            d_state = s\<lparr>current_setpoint := mem_kill_percent args\<rparr>\<rparr>
      else if T
      then \<lparr>d_sig = SIGTERM, d_high = False,
            d_state = s\<lparr>current_setpoint := mem_term_percent args\<rparr>\<rparr>
      else if hystis s > 0
      then (if MemAvailablePercent m \<le> mem_high_percent args
            then \<lparr>d_sig = hystis s, d_high = True,
                  d_state = s\<lparr>current_setpoint := mem_high_percent args\<rparr>\<rparr>
            else \<lparr>d_sig = 0, d_high = False,
                  d_state = s\<lparr>hystis := 0, current_setpoint := 0\<rparr>\<rparr>)
      else \<lparr>d_sig = 0, d_high = False, d_state = s\<rparr>)"
    unfolding E_def K_def T_def decide_def by (rule refl)
  show thesis
  proof (cases E)
    case True
    then show thesis using eq by (intro emergency) simp_all
  next
    case nE: False
    show thesis
    proof (cases K)
      case True
      then show thesis using eq nE by (intro kill) simp_all
    next
      case nK: False
      show thesis
      proof (cases T)
        case True
        then show thesis using eq nE nK by (intro sigterm) simp_all
      next
        case nT: False
        show thesis
        proof (cases "hystis s > 0")
          case h: True
          show thesis
          proof (cases "MemAvailablePercent m \<le> mem_high_percent args")
            case True
            then show thesis using eq nE nK nT h by (intro high) simp_all
          next
            case False
            then show thesis using eq nE nK nT h by (intro clear) simp_all
          qed
        next
          case False
          then show thesis using eq nE nK nT by (intro none) simp_all
        qed
      qed
    qed
  qed
qed

text \<open>
  Claim C2. Every iteration decides by first match, in this order: emergency (an
  emergency list is configured, the emergency timeout is at or below 0, memory at or below the
  emergency percentage, swap at or below the kill percentage) gives SIGKILL and raises the
  emergency flag; then kill (memory and swap at or below the kill percentages) gives SIGKILL;
  then term (memory and swap at or below the term percentages) gives SIGTERM; then hysteresis
  (a hysteresis signal is stored, memory at or below the high watermark) gives the stored
  signal again and marks \<open>high\<close>; otherwise no signal is chosen and no hysteresis signal
  remains stored.
\<close>

theorem decide_first_match:
  fixes args :: poll_loop_args and m :: meminfo and s :: poll_state
  defines "emergency \<equiv> emerg_kill args \<noteq> None \<and> emergency_timeout_ms s \<le> 0
      \<and> MemAvailablePercent m \<le> mem_emerg_percent args
      \<and> SwapFreePercent m \<le> swap_kill_percent args"
    and "kill \<equiv> MemAvailablePercent m \<le> mem_kill_percent args
      \<and> SwapFreePercent m \<le> swap_kill_percent args"
    and "term \<equiv> MemAvailablePercent m \<le> mem_term_percent args
      \<and> SwapFreePercent m \<le> swap_term_percent args"
    and "hysteresis \<equiv> hystis s > 0 \<and> MemAvailablePercent m \<le> mem_high_percent args"
    and "d \<equiv> decide args m s"
  shows "(emergency \<longrightarrow> d_sig d = SIGKILL \<and> emergency_invoked (d_state d) \<and> \<not> d_high d
            \<and> hystis (d_state d) = hystis s)
    \<and> (\<not> emergency \<and> kill \<longrightarrow> d_sig d = SIGKILL \<and> \<not> d_high d
            \<and> emergency_invoked (d_state d) = emergency_invoked s \<and> hystis (d_state d) = hystis s)
    \<and> (\<not> emergency \<and> \<not> kill \<and> term \<longrightarrow> d_sig d = SIGTERM \<and> \<not> d_high d
            \<and> emergency_invoked (d_state d) = emergency_invoked s \<and> hystis (d_state d) = hystis s)
    \<and> (\<not> emergency \<and> \<not> kill \<and> \<not> term \<and> hysteresis \<longrightarrow> d_sig d = hystis s \<and> d_high d
            \<and> emergency_invoked (d_state d) = emergency_invoked s \<and> hystis (d_state d) = hystis s)
    \<and> (\<not> emergency \<and> \<not> kill \<and> \<not> term \<and> \<not> hysteresis \<longrightarrow> d_sig d = 0 \<and> \<not> d_high d
            \<and> emergency_invoked (d_state d) = emergency_invoked s \<and> \<not> hystis (d_state d) > 0)"
  unfolding d_def hysteresis_def
  by (cases rule: decide_cases [where args=args and m=m and s=s,
        folded emergency_def kill_def term_def])
    simp_all

theorem decide_first_match_witness:
  "d_sig (decide conf_sample_args (snapshot_pct 1 0) (poll_init 0)) = SIGKILL
   \<and> emergency_invoked (d_state (decide conf_sample_args (snapshot_pct 1 0) (poll_init 0)))
   \<and> d_sig (decide default_args (snapshot_pct 4 3) (poll_init 0)) = SIGKILL
   \<and> \<not> emergency_invoked (d_state (decide default_args (snapshot_pct 4 3) (poll_init 0)))
   \<and> d_sig (decide default_args (snapshot_pct 8 5) (poll_init 0)) = SIGTERM
   \<and> d_sig (decide default_args (snapshot_pct 12 50) ((poll_init 0)\<lparr>hystis := SIGKILL\<rparr>)) = SIGKILL
   \<and> d_high (decide default_args (snapshot_pct 12 50) ((poll_init 0)\<lparr>hystis := SIGKILL\<rparr>))
   \<and> d_sig (decide default_args (snapshot_pct 60 80) ((poll_init 0)\<lparr>hystis := SIGKILL\<rparr>)) = 0
   \<and> hystis (d_state (decide default_args (snapshot_pct 60 80) ((poll_init 0)\<lparr>hystis := SIGKILL\<rparr>))) \<le> 0
   \<and> d_sig (decide default_args (snapshot_pct 60 80) (poll_init 0)) = 0"
  using decide_first_match [of conf_sample_args "poll_init 0" "snapshot_pct 1 0"]
    decide_first_match [of default_args "poll_init 0" "snapshot_pct 4 3"]
    decide_first_match [of default_args "poll_init 0" "snapshot_pct 8 5"]
    decide_first_match [of default_args "(poll_init 0)\<lparr>hystis := SIGKILL\<rparr>" "snapshot_pct 12 50"]
    decide_first_match [of default_args "(poll_init 0)\<lparr>hystis := SIGKILL\<rparr>" "snapshot_pct 60 80"]
    decide_first_match [of default_args "poll_init 0" "snapshot_pct 60 80"]
  by (simp add: default_args_def conf_sample_args_def snapshot_pct_def poll_init_def SIGKILL_def)

lemma decide_frame:
  "sleep_ms (d_state (decide args m s)) = sleep_ms s"
  "report_countdown_ms (d_state (decide args m s)) = report_countdown_ms s"
  "emergency_timeout_ms (d_state (decide args m s)) = emergency_timeout_ms s"
  by (cases rule: decide_cases [where args=args and m=m and s=s]; simp)+

lemma decide_signal_keeps_hystis:
  "d_sig (decide args m s) \<noteq> 0 \<Longrightarrow> hystis (d_state (decide args m s)) = hystis s"
  by (cases rule: decide_cases [where args=args and m=m and s=s]) simp_all

lemma decide_flag:
  "emergency_invoked (d_state (decide args m s)) \<Longrightarrow> \<not> emergency_invoked s \<Longrightarrow>
     emergency_timeout_ms s \<le> 0 \<and> d_sig (decide args m s) = SIGKILL"
  by (cases rule: decide_cases [where args=args and m=m and s=s]) simp_all

lemma decide_no_flag:
  "\<not> emergency_invoked (d_state (decide args m s)) \<Longrightarrow> \<not> emergency_invoked s"
  by (cases rule: decide_cases [where args=args and m=m and s=s]) simp_all

lemma small_sleep:
  fixes w :: "32 word"
  assumes "w \<le> 2000"
  shows "sint w = int (unat w)" and "unat (w * 1000) = unat w * 1000"
proof -
  have u: "unat w \<le> 2000"
    using assms by (simp add: word_le_nat_alt)
  have "uint w \<le> 2000"
    using assms by (simp add: word_le_def)
  then have "uint w < 2 ^ 31"
    by (rule le_less_trans) simp
  moreover have "- (2 ^ 31) \<le> uint w"
    by (rule order_trans [of _ 0]) simp_all
  ultimately have "signed_take_bit 31 (uint w) = uint w"
    by (rule signed_take_bit_int_eq_self [rotated])
  then show "sint w = int (unat w)"
    by (simp add: sint_uint)
  show "unat (w * 1000) = unat w * 1000"
    using u by (simp add: unat_word_ariths)
qed

lemma sleep_time_ms_le: "sleep_time_ms fp args m \<le> 2000"
proof -
  have "uint (sleep_time_ms fp args m) \<le> 1000"
    by (simp add: sleep_time_ms_def uint_sleep_time_from clamp_ms_def)
  then show ?thesis by (simp add: word_le_def)
qed

lemma act_on_cases [case_names emergency kill report idle]:
  obtains
    (emergency) "d_sig d \<noteq> 0" "emergency_invoked (d_state d)"
      "act_on fp args m d = (Emergency,
         (d_state d)\<lparr>sleep_ms := 2000, emergency_timeout_ms := EMERGENCY_TIMEOUT,
            emergency_invoked := False, hystis := d_sig d\<rparr>)"
  | (kill) "d_sig d \<noteq> 0" "\<not> emergency_invoked (d_state d)"
      "act_on fp args m d = (KillLargest (d_sig d),
         (d_state d)\<lparr>sleep_ms := (if hystis (d_state d) = SIGKILL then 50 else 500),
            hystis := d_sig d\<rparr>)"
  | (report) "d_sig d = 0" "report_interval_ms args \<noteq> 0" "report_countdown_ms (d_state d) \<le> 0"
      "act_on fp args m d = (Report,
         (d_state d)\<lparr>report_countdown_ms := report_interval_ms args,
            sleep_ms := sleep_time_ms fp args m\<rparr>)"
  | (idle) "d_sig d = 0" "report_interval_ms args = 0 \<or> report_countdown_ms (d_state d) > 0"
      "act_on fp args m d = (Idle, d_state d)"
proof (cases "d_sig d = 0")
  case sig0: True
  show thesis
  proof (cases "report_interval_ms args \<noteq> 0 \<and> report_countdown_ms (d_state d) \<le> 0")
    case True
    then show thesis using sig0 by (intro report) (simp_all add: act_on_def Let_def)
  next
    case False
    then have "act_on fp args m d = (Idle, d_state d)"
      using sig0 unfolding act_on_def Let_def by (simp only: if_False if_True simp_thms)
    then show thesis using sig0 False by (intro idle) auto
  qed
next
  case False
  then show thesis
    by (cases "emergency_invoked (d_state d)")
      (auto intro: emergency kill simp: act_on_def Let_def)
qed

lemma act_on_sleep_le:
  "sleep_ms (d_state d) \<le> 2000 \<Longrightarrow> sleep_ms (snd (act_on fp args m d)) \<le> 2000"
  by (cases rule: act_on_cases [where d=d and fp=fp and args=args and m=m]) (simp_all add: sleep_time_ms_le)

lemma act_on_emergency:
  "fst (act_on fp args m d) = Emergency \<longleftrightarrow> d_sig d \<noteq> 0 \<and> emergency_invoked (d_state d)"
  by (cases rule: act_on_cases [where d=d and fp=fp and args=args and m=m]) simp_all

lemma act_on_flag:
  "emergency_invoked (snd (act_on fp args m d)) \<longleftrightarrow> d_sig d = 0 \<and> emergency_invoked (d_state d)"
  by (cases rule: act_on_cases [where d=d and fp=fp and args=args and m=m]) simp_all

lemma act_on_timeout:
  "emergency_timeout_ms (snd (act_on fp args m d)) =
     (if fst (act_on fp args m d) = Emergency then 30000 else emergency_timeout_ms (d_state d))"
  by (cases rule: act_on_cases [where d=d and fp=fp and args=args and m=m]) (simp_all add: EMERGENCY_TIMEOUT_def)

lemma act_on_emergency_sleep:
  "fst (act_on fp args m d) = Emergency \<Longrightarrow> sleep_ms (snd (act_on fp args m d)) = 2000"
  by (cases rule: act_on_cases [where d=d and fp=fp and args=args and m=m]) simp_all

lemma act_on_idle:
  "fst (act_on fp args m d) = Idle \<longleftrightarrow>
     d_sig d = 0 \<and> (report_interval_ms args = 0 \<or> report_countdown_ms (d_state d) > 0)"
  by (cases rule: act_on_cases [where d=d and fp=fp and args=args and m=m]) auto

lemma act_on_idle_state: "fst (act_on fp args m d) = Idle \<Longrightarrow> snd (act_on fp args m d) = d_state d"
  by (cases rule: act_on_cases [where d=d and fp=fp and args=args and m=m]) simp_all

lemma act_on_no_report:
  "report_interval_ms args = 0 \<Longrightarrow> fst (act_on fp args m d) \<noteq> Report"
  by (cases rule: act_on_cases [where d=d and fp=fp and args=args and m=m]) simp_all

lemma act_on_kill:
  "fst (act_on fp args m d) = KillLargest sg \<longleftrightarrow>
     d_sig d \<noteq> 0 \<and> \<not> emergency_invoked (d_state d) \<and> sg = d_sig d"
  by (cases rule: act_on_cases [where d=d and fp=fp and args=args and m=m]) auto

lemma act_on_kill_state:
  "fst (act_on fp args m d) = KillLargest sg \<Longrightarrow>
     sleep_ms (snd (act_on fp args m d)) = (if hystis (d_state d) = SIGKILL then 50 else 500)
     \<and> hystis (snd (act_on fp args m d)) = sg"
  by (cases rule: act_on_cases [where d=d and fp=fp and args=args and m=m]) simp_all

lemma count_down_frame:
  "sleep_ms (count_down s) = sleep_ms s"
  "emergency_invoked (count_down s) = emergency_invoked s"
  "hystis (count_down s) = hystis s"
  by (simp_all add: count_down_def Let_def)

lemma count_down_timeout:
  "emergency_timeout_ms (count_down s) =
     (if emergency_timeout_ms s > 0 then emergency_timeout_ms s - sint (sleep_ms s)
      else emergency_timeout_ms s)"
  by (simp add: count_down_def Let_def)

lemma poll_iter_proj:
  "fst (poll_iter fp args m s) = count_down (snd (act_on fp args m (decide args m s)))"
  "out_action (snd (poll_iter fp args m s)) = fst (act_on fp args m (decide args m s))"
  "out_usleep (snd (poll_iter fp args m s)) = sleep_ms (snd (act_on fp args m (decide args m s))) * 1000"
  by (simp_all add: poll_iter_def Let_def)

lemma debounce_step:
  assumes "debounce_inv acc s"
  shows "debounce_inv (acc + unat (out_usleep (snd (poll_iter fp args m s)))) (fst (poll_iter fp args m s))"
    and "out_action (snd (poll_iter fp args m s)) = Emergency \<Longrightarrow> 30000000 \<le> acc"
proof -
  define d where "d = decide args m s"
  define a where "a = fst (act_on fp args m d)"
  define s2 where "s2 = snd (act_on fp args m d)"
  have inv: "\<not> emergency_invoked s" "sleep_ms s \<le> 2000"
    "30000000 \<le> emergency_timeout_ms s * 1000 + int acc"
    using assms by (simp_all add: debounce_inv_def)
  have le: "sleep_ms s2 \<le> 2000"
    unfolding s2_def d_def by (rule act_on_sleep_le) (simp add: decide_frame inv)
  note sm = small_sleep [OF le]
  have flag2: "\<not> emergency_invoked s2"
    unfolding s2_def d_def act_on_flag using decide_flag [of args m s] inv(1)
    by (auto simp: SIGKILL_def)
  have em: "a = Emergency \<Longrightarrow> emergency_timeout_ms s \<le> 0"
    unfolding a_def d_def act_on_emergency using decide_flag [of args m s] inv(1) by blast
  have t2: "emergency_timeout_ms s2 = (if a = Emergency then 30000 else emergency_timeout_ms s)"
    unfolding s2_def a_def d_def by (simp add: act_on_timeout decide_frame)
  have sl: "a = Emergency \<Longrightarrow> unat (sleep_ms s2) = 2000"
    unfolding s2_def a_def by (simp add: act_on_emergency_sleep)
  have proj: "fst (poll_iter fp args m s) = count_down s2"
    "out_action (snd (poll_iter fp args m s)) = a"
    "out_usleep (snd (poll_iter fp args m s)) = sleep_ms s2 * 1000"
    unfolding s2_def a_def d_def by (rule poll_iter_proj)+
  show "out_action (snd (poll_iter fp args m s)) = Emergency \<Longrightarrow> 30000000 \<le> acc"
    using em inv(3) unfolding proj by auto
  have "30000000 \<le> emergency_timeout_ms (count_down s2) * 1000 + int (acc + unat (sleep_ms s2) * 1000)"
  proof (cases "a = Emergency")
    case True
    then show ?thesis
      using sl t2 sm(1) by (simp add: count_down_timeout)
  next
    case False
    then show ?thesis
      using t2 sm(1) inv(3)
      by (simp add: count_down_timeout) (use uint_ge_0 [of "sleep_ms s2"] in linarith)
  qed
  then show "debounce_inv (acc + unat (out_usleep (snd (poll_iter fp args m s)))) (fst (poll_iter fp args m s))"
    unfolding proj debounce_inv_def using flag2 le by (simp add: count_down_frame sm(2))
qed

lemma length_poll_run: "length (poll_run fp args ms s) = length ms"
  by (induction ms arbitrary: s) simp_all

lemma debounce_run:
  "debounce_inv acc s \<Longrightarrow> j < length ms \<Longrightarrow> out_action (poll_run fp args ms s ! j) = Emergency \<Longrightarrow>
     30000000 \<le> acc + (\<Sum>k<j. unat (out_usleep (poll_run fp args ms s ! k)))"
proof (induction ms arbitrary: s acc j)
  case Nil
  then show ?case by simp
next
  case (Cons m ms)
  show ?case
  proof (cases j)
    case 0
    then show ?thesis
      using debounce_step(2) [OF Cons.prems(1), of fp args m] Cons.prems(3) by simp
  next
    case (Suc j')
    have "30000000 \<le> (acc + unat (out_usleep (snd (poll_iter fp args m s))))
        + (\<Sum>k<j'. unat (out_usleep (poll_run fp args ms (fst (poll_iter fp args m s)) ! k)))"
      using Cons.prems(2,3) Suc
      by (intro Cons.IH debounce_step(1) [OF Cons.prems(1)]) simp_all
    then show ?thesis
      by (simp add: Suc sum.lessThan_Suc_shift del: sum.lessThan_Suc)
  qed
qed

lemma poll_run_drop:
  "drop i (poll_run fp args ms s) = poll_run fp args (drop i ms) (poll_final fp args (take i ms) s)"
proof (induction ms arbitrary: s i)
  case Nil
  then show ?case by simp
next
  case (Cons m ms)
  then show ?case by (cases i) simp_all
qed

lemma poll_run_nth:
  assumes "i < length ms"
  shows "poll_run fp args ms s ! i = snd (poll_iter fp args (ms ! i) (poll_final fp args (take i ms) s))"
    and "i + k < length ms \<Longrightarrow> poll_run fp args ms s ! (Suc (i + k)) =
      poll_run fp args (drop (Suc i) ms) (fst (poll_iter fp args (ms ! i) (poll_final fp args (take i ms) s))) ! k"
proof -
  have d: "drop i ms = ms ! i # drop (Suc i) ms"
    using assms by (simp add: Cons_nth_drop_Suc)
  have "drop i (poll_run fp args ms s) =
      snd (poll_iter fp args (ms ! i) (poll_final fp args (take i ms) s))
      # poll_run fp args (drop (Suc i) ms) (fst (poll_iter fp args (ms ! i) (poll_final fp args (take i ms) s)))"
    by (simp add: poll_run_drop d)
  moreover have "drop i (poll_run fp args ms s) ! 0 = poll_run fp args ms s ! i"
    "drop i (poll_run fp args ms s) ! Suc k = poll_run fp args ms s ! (Suc (i + k))"
    using assms by (simp_all add: length_poll_run)
  ultimately show "poll_run fp args ms s ! i = snd (poll_iter fp args (ms ! i) (poll_final fp args (take i ms) s))"
    and "i + k < length ms \<Longrightarrow> poll_run fp args ms s ! (Suc (i + k)) =
      poll_run fp args (drop (Suc i) ms) (fst (poll_iter fp args (ms ! i) (poll_final fp args (take i ms) s))) ! k"
    by simp_all
qed

lemma emergency_establishes:
  assumes "out_action (snd (poll_iter fp args m s)) = Emergency"
  shows "debounce_inv 2000000 (fst (poll_iter fp args m s))"
    and "unat (out_usleep (snd (poll_iter fp args m s))) = 2000000"
proof -
  define d where "d = decide args m s"
  have a: "fst (act_on fp args m d) = Emergency"
    using assms by (simp add: poll_iter_proj d_def)
  have s2: "sleep_ms (snd (act_on fp args m d)) = 2000"
    "emergency_timeout_ms (snd (act_on fp args m d)) = 30000"
    "\<not> emergency_invoked (snd (act_on fp args m d))"
    using a by (simp_all add: act_on_emergency_sleep act_on_timeout act_on_flag act_on_emergency)
  show "unat (out_usleep (snd (poll_iter fp args m s))) = 2000000"
    by (simp add: poll_iter_proj s2 flip: d_def)
  show "debounce_inv 2000000 (fst (poll_iter fp args m s))"
    by (simp add: poll_iter_proj debounce_inv_def count_down_frame count_down_timeout s2 flip: d_def)
qed

text \<open>
  Claim C7. When the emergency action fires in iteration \<open>i\<close> and again in a later
  iteration \<open>j\<close>, the sleeps that end the iterations \<open>i\<close> to \<open>j - 1\<close> add up to at least
  30000 milliseconds, whatever the memory readings and the state the run started in.
\<close>

theorem emergency_debounce:
  assumes "i < j" "j < length ms"
    and "out_action (poll_run fp args ms s ! i) = Emergency"
    and "out_action (poll_run fp args ms s ! j) = Emergency"
  shows "30000 * 1000 \<le> (\<Sum>k = i..<j. unat (out_usleep (poll_run fp args ms s ! k)))"
proof -
  define si where "si = poll_final fp args (take i ms) s"
  define s' where "s' = fst (poll_iter fp args (ms ! i) si)"
  define rest where "rest = poll_run fp args (drop (Suc i) ms) s'"
  have i: "i < length ms" using assms(1,2) by simp
  have oi: "poll_run fp args ms s ! i = snd (poll_iter fp args (ms ! i) si)"
    unfolding si_def by (rule poll_run_nth(1) [OF i])
  have later: "poll_run fp args ms s ! (Suc (i + k)) = rest ! k" if "i + k < length ms" for k
    unfolding rest_def s'_def si_def by (rule poll_run_nth(2) [OF i that])
  have em: "out_action (snd (poll_iter fp args (ms ! i) si)) = Emergency"
    using assms(3) by (simp add: oi)
  note est = emergency_establishes [OF em, folded s'_def]
  have j: "Suc (i + (j - Suc i)) = j" "i + (j - Suc i) < length ms" "j - Suc i < length (drop (Suc i) ms)"
    using assms(1,2) by simp_all
  have "out_action (rest ! (j - Suc i)) = Emergency"
    using later [OF j(2)] assms(4) by (simp only: j(1))
  then have "30000000 \<le> 2000000 + (\<Sum>k<j - Suc i. unat (out_usleep (rest ! k)))"
    unfolding rest_def by (intro debounce_run est(1) j(3))
  moreover have "(\<Sum>k<j - Suc i. unat (out_usleep (rest ! k)))
      = (\<Sum>k<j - Suc i. unat (out_usleep (poll_run fp args ms s ! (Suc (i + k)))))"
    using assms(1,2) by (intro sum.cong refl) (simp add: later)
  moreover have "\<dots> = (\<Sum>k = Suc i..<j. unat (out_usleep (poll_run fp args ms s ! k)))"
    by (simp add: sum.atLeastLessThan_shift_0 [of _ "Suc i" j] atLeast0LessThan comp_def)
  moreover have "(\<Sum>k = i..<j. unat (out_usleep (poll_run fp args ms s ! k)))
      = unat (out_usleep (poll_run fp args ms s ! i)) + (\<Sum>k = Suc i..<j. unat (out_usleep (poll_run fp args ms s ! k)))"
    using assms(1) by (simp add: sum.atLeast_Suc_lessThan)
  ultimately show ?thesis
    using est(2) by (simp add: oi)
qed

lemma decide_countdown_sig0:
  "d_sig (decide args m s) = 0 \<Longrightarrow> emergency_invoked (d_state (decide args m s)) = emergency_invoked s"
  by (cases rule: decide_cases [where args=args and m=m and s=s]) (simp_all add: SIGKILL_def)

lemma usleep_is_next_sleep_ms:
  "out_usleep (snd (poll_iter fp args m s)) = sleep_ms (fst (poll_iter fp args m s)) * 1000"
  by (simp add: poll_iter_proj count_down_frame)

lemma idle_iter:
  assumes "out_action (snd (poll_iter fp args m s)) = Idle"
  shows "sleep_ms (fst (poll_iter fp args m s)) = sleep_ms s"
    and "out_usleep (snd (poll_iter fp args m s)) = sleep_ms s * 1000"
  using assms by (simp_all add: poll_iter_proj count_down_frame act_on_idle_state decide_frame)

lemma idle_repeats:
  assumes "Suc j < length ms" "out_action (poll_run fp args ms s ! Suc j) = Idle"
  shows "out_usleep (poll_run fp args ms s ! Suc j) = out_usleep (poll_run fp args ms s ! j)"
proof -
  have j: "j < length ms" "j + 0 < length ms" "Suc j < length ms"
    using assms(1) by simp_all
  define sj where "sj = poll_final fp args (take j ms) s"
  define s' where "s' = fst (poll_iter fp args (ms ! j) sj)"
  have d: "drop (Suc j) ms = ms ! Suc j # drop (Suc (Suc j)) ms"
    using assms(1) by (simp add: Cons_nth_drop_Suc)
  have oj: "poll_run fp args ms s ! j = snd (poll_iter fp args (ms ! j) sj)"
    unfolding sj_def by (rule poll_run_nth(1) [OF j(1)])
  have "poll_run fp args ms s ! Suc (j + 0) = poll_run fp args (drop (Suc j) ms) s' ! 0"
    unfolding s'_def sj_def by (rule poll_run_nth(2) [OF j(1) j(2)])
  then have os: "poll_run fp args ms s ! Suc j = snd (poll_iter fp args (ms ! Suc j) s')"
    by (simp add: d)
  have "out_usleep (poll_run fp args ms s ! Suc j) = sleep_ms s' * 1000"
    using assms(2) unfolding os by (rule idle_iter(2))
  also have "\<dots> = out_usleep (poll_run fp args ms s ! j)"
    unfolding oj s'_def by (rule usleep_is_next_sleep_ms [symmetric])
  finally show ?thesis .
qed

lemma idle_stretch:
  assumes "j < length ms" "i \<le> j"
    and "\<forall>k. i < k \<and> k \<le> j \<longrightarrow> out_action (poll_run fp args ms s ! k) = Idle"
  shows "out_usleep (poll_run fp args ms s ! j) = out_usleep (poll_run fp args ms s ! i)"
  using assms
proof (induction j)
  case 0
  then show ?case by simp
next
  case (Suc j)
  show ?case
  proof (cases "i = Suc j")
    case True
    then show ?thesis by simp
  next
    case False
    then have ij: "i \<le> j" "i < Suc j" using Suc.prems(2) by simp_all
    have "out_usleep (poll_run fp args ms s ! Suc j) = out_usleep (poll_run fp args ms s ! j)"
      using Suc.prems(1,3) ij by (intro idle_repeats) simp_all
    also have "\<dots> = out_usleep (poll_run fp args ms s ! i)"
      using Suc.prems ij by (intro Suc.IH) simp_all
    finally show ?thesis .
  qed
qed

lemma kill_iteration_sleep:
  assumes "i < length ms" "report_interval_ms args = 0" "out_action (poll_run fp args ms s ! i) \<noteq> Idle"
  shows "out_action (poll_run fp args ms s ! i) = Emergency \<and> out_usleep (poll_run fp args ms s ! i) = 2000000
    \<or> (\<exists>sg. out_action (poll_run fp args ms s ! i) = KillLargest sg
          \<and> (out_usleep (poll_run fp args ms s ! i) = 50000 \<or> out_usleep (poll_run fp args ms s ! i) = 500000))"
proof -
  define si where "si = poll_final fp args (take i ms) s"
  define d where "d = decide args (ms ! i) si"
  have oi: "poll_run fp args ms s ! i = snd (poll_iter fp args (ms ! i) si)"
    unfolding si_def by (rule poll_run_nth(1) [OF assms(1)])
  have a: "out_action (poll_run fp args ms s ! i) = fst (act_on fp args (ms ! i) d)"
    and u: "out_usleep (poll_run fp args ms s ! i) = sleep_ms (snd (act_on fp args (ms ! i) d)) * 1000"
    by (simp_all add: oi poll_iter_proj d_def)
  show ?thesis
  proof (cases "fst (act_on fp args (ms ! i) d)")
    case Emergency
    then show ?thesis by (simp add: a u act_on_emergency_sleep)
  next
    case (KillLargest sg)
    then show ?thesis using act_on_kill_state [OF KillLargest] by (simp add: a u)
  next
    case Report
    then show ?thesis using act_on_no_report [OF assms(2)] by simp
  next
    case Idle
    then show ?thesis using assms(3) by (simp add: a)
  qed
qed

text \<open>
  Claim C10. An iteration that chooses no signal and does not take the report branch
  (the report interval is 0, or the report countdown is positive) leaves \<open>sleep_ms\<close> as
  it was and sleeps that long: \<open>sleep_time_ms\<close> is not called. With the periodic report
  disabled, every idle iteration therefore sleeps as long as the last kill iteration
  before it (2000 ms after an emergency, 50 or 500 ms after \<open>kill_largest_process\<close>);
  and while no iteration has assigned \<open>sleep_ms\<close>, an idle iteration sleeps for the
  indeterminate content \<open>g\<close> of the uninitialised variable.
\<close>

theorem idle_iteration_keeps_sleep_ms:
  "(d_sig (decide args m s) = 0 \<and> (report_interval_ms args = 0 \<or> report_countdown_ms s > 0) \<longrightarrow>
      out_action (snd (poll_iter fp args m s)) = Idle
      \<and> sleep_ms (fst (poll_iter fp args m s)) = sleep_ms s
      \<and> out_usleep (snd (poll_iter fp args m s)) = sleep_ms s * 1000)
   \<and> (report_interval_ms args = 0 \<and> i < j \<and> j < length ms
        \<and> out_action (poll_run fp args ms s ! i) \<noteq> Idle
        \<and> (\<forall>k. i < k \<and> k \<le> j \<longrightarrow> out_action (poll_run fp args ms s ! k) = Idle) \<longrightarrow>
      out_usleep (poll_run fp args ms s ! j) = out_usleep (poll_run fp args ms s ! i)
      \<and> (out_action (poll_run fp args ms s ! i) = Emergency \<and> out_usleep (poll_run fp args ms s ! i) = 2000000
         \<or> (\<exists>sg. out_action (poll_run fp args ms s ! i) = KillLargest sg
              \<and> (out_usleep (poll_run fp args ms s ! i) = 50000 \<or> out_usleep (poll_run fp args ms s ! i) = 500000))))
   \<and> (j < length ms \<and> (\<forall>k\<le>j. out_action (poll_run fp args ms (poll_init g) ! k) = Idle) \<longrightarrow>
      out_usleep (poll_run fp args ms (poll_init g) ! j) = g * 1000)"
proof (intro conjI impI)
  assume a: "d_sig (decide args m s) = 0 \<and> (report_interval_ms args = 0 \<or> 0 < report_countdown_ms s)"
  then show idle: "out_action (snd (poll_iter fp args m s)) = Idle"
    by (simp add: poll_iter_proj act_on_idle decide_frame)
  show "sleep_ms (fst (poll_iter fp args m s)) = sleep_ms s"
    and "out_usleep (snd (poll_iter fp args m s)) = sleep_ms s * 1000"
    by (rule idle_iter [OF idle])+
next
  assume a: "report_interval_ms args = 0 \<and> i < j \<and> j < length ms
        \<and> out_action (poll_run fp args ms s ! i) \<noteq> Idle
        \<and> (\<forall>k. i < k \<and> k \<le> j \<longrightarrow> out_action (poll_run fp args ms s ! k) = Idle)"
  then show "out_usleep (poll_run fp args ms s ! j) = out_usleep (poll_run fp args ms s ! i)"
    by (intro idle_stretch) simp_all
  show "out_action (poll_run fp args ms s ! i) = Emergency \<and> out_usleep (poll_run fp args ms s ! i) = 2000000
         \<or> (\<exists>sg. out_action (poll_run fp args ms s ! i) = KillLargest sg
              \<and> (out_usleep (poll_run fp args ms s ! i) = 50000 \<or> out_usleep (poll_run fp args ms s ! i) = 500000))"
    using a by (intro kill_iteration_sleep) simp_all
next
  assume a: "j < length ms \<and> (\<forall>k\<le>j. out_action (poll_run fp args ms (poll_init g) ! k) = Idle)"
  then have z: "0 < length ms" "out_action (poll_run fp args ms (poll_init g) ! 0) = Idle"
    by auto
  have "out_usleep (poll_run fp args ms (poll_init g) ! j) = out_usleep (poll_run fp args ms (poll_init g) ! 0)"
    using a by (intro idle_stretch) simp_all
  also have "\<dots> = sleep_ms (poll_init g) * 1000"
    using z by (simp add: poll_run_nth(1) idle_iter(2))
  finally show "out_usleep (poll_run fp args ms (poll_init g) ! j) = g * 1000"
    by (simp add: poll_init_def)
qed

text \<open>
  Claim C8, as the code has it. An iteration that calls \<open>kill_largest_process\<close> sets the
  sleep to 50 ms when the hysteresis signal stored by the iterations before it is
  SIGKILL, and to 500 ms otherwise; the signal of this iteration is stored only after
  that. So an iteration that triggers SIGKILL directly, with no hysteresis signal
  stored, sleeps 500 ms.
\<close>

theorem kill_path_sleep:
  "(out_action (snd (poll_iter fp args m s)) = KillLargest sg \<longrightarrow>
      sleep_ms (fst (poll_iter fp args m s)) = (if hystis s = SIGKILL then 50 else 500)
      \<and> out_usleep (snd (poll_iter fp args m s)) = (if hystis s = SIGKILL then 50000 else 500000)
      \<and> hystis (fst (poll_iter fp args m s)) = sg)
   \<and> (MemAvailablePercent m \<le> mem_kill_percent args \<and> SwapFreePercent m \<le> swap_kill_percent args
       \<and> \<not> MemAvailablePercent m \<le> mem_emerg_percent args
       \<and> \<not> emergency_invoked s \<and> hystis s = 0 \<longrightarrow>
      out_action (snd (poll_iter fp args m s)) = KillLargest SIGKILL
      \<and> out_usleep (snd (poll_iter fp args m s)) = 500000)"
proof (intro conjI impI)
  assume "out_action (snd (poll_iter fp args m s)) = KillLargest sg"
  then have k: "fst (act_on fp args m (decide args m s)) = KillLargest sg"
    by (simp add: poll_iter_proj)
  then have "d_sig (decide args m s) \<noteq> 0"
    by (simp add: act_on_kill)
  then have h: "hystis (d_state (decide args m s)) = hystis s"
    by (rule decide_signal_keeps_hystis)
  show "sleep_ms (fst (poll_iter fp args m s)) = (if hystis s = SIGKILL then 50 else 500)"
    and "out_usleep (snd (poll_iter fp args m s)) = (if hystis s = SIGKILL then 50000 else 500000)"
    and "hystis (fst (poll_iter fp args m s)) = sg"
    using act_on_kill_state [OF k] by (simp_all add: poll_iter_proj count_down_frame h)
next
  assume a: "MemAvailablePercent m \<le> mem_kill_percent args \<and> SwapFreePercent m \<le> swap_kill_percent args
       \<and> \<not> MemAvailablePercent m \<le> mem_emerg_percent args
       \<and> \<not> emergency_invoked s \<and> hystis s = 0"
  then have d: "decide args m s = \<lparr>d_sig = SIGKILL, d_high = False,
      d_state = s\<lparr>current_setpoint := mem_kill_percent args\<rparr>\<rparr>"
    by (cases rule: decide_cases [where args=args and m=m and s=s]) simp_all
  show "out_action (snd (poll_iter fp args m s)) = KillLargest SIGKILL"
    and "out_usleep (snd (poll_iter fp args m s)) = 500000"
    using a by (simp_all add: poll_iter_proj d act_on_def Let_def SIGKILL_def)
qed

lemmas poll_eval =
  poll_iter_def decide_def act_on_def count_down_def status_code_def Let_def
  default_args_def conf_sample_args_def snapshot_pct_def poll_init_def
  SIGKILL_def SIGTERM_def EMERGENCY_TIMEOUT_def

text \<open>
  The claim as it was stated (50 ms after a SIGKILL sent in this iteration) fails in the
  first iteration of a run: memory at 4 percent and swap at 3 percent, under the
  default limits, send SIGKILL and sleep 500 ms.
\<close>

theorem kill_path_sleep_counterexample:
  "out_action (snd (poll_iter exact_unit default_args (snapshot_pct 4 3) (poll_init 0))) = KillLargest SIGKILL
   \<and> hystis (poll_init 0) = 0
   \<and> MemAvailablePercent (snapshot_pct 4 3) \<le> mem_kill_percent default_args
   \<and> SwapFreePercent (snapshot_pct 4 3) \<le> swap_kill_percent default_args
   \<and> out_usleep (snd (poll_iter exact_unit default_args (snapshot_pct 4 3) (poll_init 0))) = 500 * 1000
   \<and> out_usleep (snd (poll_iter exact_unit default_args (snapshot_pct 4 3) (poll_init 0))) \<noteq> 50 * 1000"
  by (simp add: poll_eval)

theorem kill_path_sleep_witness:
  "out_action (snd (poll_iter exact_unit default_args (snapshot_pct 4 3) ((poll_init 0)\<lparr>hystis := SIGKILL\<rparr>)))
     = KillLargest SIGKILL
   \<and> out_usleep (snd (poll_iter exact_unit default_args (snapshot_pct 4 3) ((poll_init 0)\<lparr>hystis := SIGKILL\<rparr>)))
     = 50000
   \<and> out_action (snd (poll_iter exact_unit default_args (snapshot_pct 4 3) (poll_init 0))) = KillLargest SIGKILL
   \<and> out_usleep (snd (poll_iter exact_unit default_args (snapshot_pct 4 3) (poll_init 0))) = 500000"
proof -
  have a: "out_action (snd (poll_iter exact_unit default_args (snapshot_pct 4 3) ((poll_init 0)\<lparr>hystis := SIGKILL\<rparr>)))
     = KillLargest SIGKILL"
    by (simp add: poll_eval)
  have b: "MemAvailablePercent (snapshot_pct 4 3) \<le> mem_kill_percent default_args
       \<and> SwapFreePercent (snapshot_pct 4 3) \<le> swap_kill_percent default_args
       \<and> \<not> MemAvailablePercent (snapshot_pct 4 3) \<le> mem_emerg_percent default_args
       \<and> \<not> emergency_invoked (poll_init 0) \<and> hystis (poll_init 0) = 0"
    by (simp add: default_args_def snapshot_pct_def poll_init_def)
  have h: "hystis ((poll_init 0)\<lparr>hystis := SIGKILL\<rparr>) = SIGKILL"
    by simp
  show ?thesis
    using kill_path_sleep [of exact_unit default_args "snapshot_pct 4 3" "(poll_init 0)\<lparr>hystis := SIGKILL\<rparr>" SIGKILL] a h
      kill_path_sleep [of exact_unit default_args "snapshot_pct 4 3" "poll_init 0" SIGKILL] b
    by simp
qed

theorem emergency_debounce_witness:
  "out_action (poll_run exact_unit (conf_sample_args\<lparr>report_interval_ms := 0\<rparr>) debounce_run_example (poll_init 0) ! 0) = Emergency
   \<and> out_action (poll_run exact_unit (conf_sample_args\<lparr>report_interval_ms := 0\<rparr>) debounce_run_example (poll_init 0) ! 15) = Emergency
   \<and> 30000 * 1000 \<le> (\<Sum>k = 0..<15.
        unat (out_usleep (poll_run exact_unit (conf_sample_args\<lparr>report_interval_ms := 0\<rparr>) debounce_run_example (poll_init 0) ! k)))"
proof -
  let ?run = "poll_run exact_unit (conf_sample_args\<lparr>report_interval_ms := 0\<rparr>) debounce_run_example (poll_init 0)"
  have l: "(0::nat) < 15" "15 < length debounce_run_example"
    by (simp_all add: debounce_run_example_def)
  have a: "out_action (?run ! 0) = Emergency"
    by (simp add: debounce_run_example_def poll_eval)
  have b: "out_action (?run ! 15) = Emergency"
    by (simp add: debounce_run_example_def poll_eval eval_nat_numeral)
  show ?thesis
    using emergency_debounce [OF l a b] a b by simp
qed

theorem idle_iteration_keeps_sleep_ms_witness:
  "out_usleep (snd (poll_iter exact_unit (default_args\<lparr>report_interval_ms := 0\<rparr>) (snapshot_pct 60 80) (poll_init 7)))
     = 7 * 1000
   \<and> out_usleep (poll_run exact_unit (default_args\<lparr>report_interval_ms := 0\<rparr>) idle_run_example (poll_init 7) ! 2)
     = out_usleep (poll_run exact_unit (default_args\<lparr>report_interval_ms := 0\<rparr>) idle_run_example (poll_init 7) ! 0)
   \<and> out_usleep (poll_run exact_unit (default_args\<lparr>report_interval_ms := 0\<rparr>) idle_run_example (poll_init 7) ! 0)
     = 500000
   \<and> out_usleep (poll_run exact_unit (default_args\<lparr>report_interval_ms := 0\<rparr>) (tl idle_run_example) (poll_init 7) ! 1)
     = 7 * 1000"
proof -
  let ?args = "default_args\<lparr>report_interval_ms := 0\<rparr>"
  have a: "d_sig (decide ?args (snapshot_pct 60 80) (poll_init 7)) = 0
      \<and> (report_interval_ms ?args = 0 \<or> report_countdown_ms (poll_init 7) > 0)"
    by (simp add: poll_eval)
  have k: "k = 1 \<or> k = 2" if "0 < k \<and> k \<le> 2" for k :: nat
    using that by auto
  have r: "out_action (poll_run exact_unit ?args idle_run_example (poll_init 7) ! 0) = KillLargest SIGKILL"
    "out_action (poll_run exact_unit ?args idle_run_example (poll_init 7) ! 1) = Idle"
    "out_action (poll_run exact_unit ?args idle_run_example (poll_init 7) ! 2) = Idle"
    by (simp_all add: idle_run_example_def poll_eval eval_nat_numeral)
  have len: "2 < length idle_run_example" "1 < length (tl idle_run_example)"
    by (simp_all add: idle_run_example_def)
  have rep: "report_interval_ms ?args = 0"
    by simp
  have idle12: "\<forall>k. 0 < k \<and> k \<le> 2 \<longrightarrow> out_action (poll_run exact_unit ?args idle_run_example (poll_init 7) ! k) = Idle"
    using r(2,3) k by blast
  have b: "report_interval_ms ?args = 0 \<and> (0::nat) < 2 \<and> 2 < length idle_run_example
      \<and> out_action (poll_run exact_unit ?args idle_run_example (poll_init 7) ! 0) \<noteq> Idle
      \<and> (\<forall>k. 0 < k \<and> k \<le> 2 \<longrightarrow> out_action (poll_run exact_unit ?args idle_run_example (poll_init 7) ! k) = Idle)"
    using rep len(1) idle12 by (simp add: r(1))
  have q: "out_action (poll_run exact_unit ?args (tl idle_run_example) (poll_init 7) ! 0) = Idle"
    "out_action (poll_run exact_unit ?args (tl idle_run_example) (poll_init 7) ! 1) = Idle"
    by (simp_all add: idle_run_example_def poll_eval)
  have k': "k = 0 \<or> k = 1" if "k \<le> 1" for k :: nat
    using that by auto
  have idle01: "\<forall>k\<le>1. out_action (poll_run exact_unit ?args (tl idle_run_example) (poll_init 7) ! k) = Idle"
    using q k' by blast
  have c: "1 < length (tl idle_run_example)
      \<and> (\<forall>k\<le>1. out_action (poll_run exact_unit ?args (tl idle_run_example) (poll_init 7) ! k) = Idle)"
    using len(2) idle01 by blast
  have u: "out_usleep (poll_run exact_unit ?args idle_run_example (poll_init 7) ! 0) = 500000"
    by (simp add: idle_run_example_def poll_eval)
  note t1 = idle_iteration_keeps_sleep_ms [of ?args "snapshot_pct 60 80" "poll_init 7" exact_unit 0 2
        idle_run_example 7]
  note t2 = idle_iteration_keeps_sleep_ms [of ?args "snapshot_pct 60 80" "poll_init 7" exact_unit 0 1
        "tl idle_run_example" 7]
  have "out_usleep (snd (poll_iter exact_unit ?args (snapshot_pct 60 80) (poll_init 7)))
      = sleep_ms (poll_init 7) * 1000"
    using t1 [THEN conjunct1, THEN mp, OF a] by (rule conjunct2 [THEN conjunct2])
  moreover have "out_usleep (poll_run exact_unit ?args idle_run_example (poll_init 7) ! 2)
      = out_usleep (poll_run exact_unit ?args idle_run_example (poll_init 7) ! 0)"
    using t1 [THEN conjunct2, THEN conjunct1, THEN mp, OF b] by (rule conjunct1)
  moreover have "out_usleep (poll_run exact_unit ?args (tl idle_run_example) (poll_init 7) ! 1) = 7 * 1000"
    by (rule t2 [THEN conjunct2, THEN conjunct2, THEN mp, OF c])
  ultimately show ?thesis
    using u by (simp add: poll_init_def)
qed

section \<open>Properties of the victim selector\<close>

lemma age_cast:
  fixes w :: "64 word"
  assumes "unat w div 600 < 2 ^ 31"
  shows "sint (ucast (w div BADNESS_AGE_DIV) :: 32 word) = int (unat w div 600)"
proof -
  have d: "unat (w div 600) = unat w div 600"
    by (simp add: unat_div)
  have lt: "int (unat w div 600) < 2 ^ 31"
    using assms by (metis of_nat_less_iff of_nat_numeral of_nat_power)
  have "uint (w div 600) = int (unat w div 600)"
    using d by (metis uint_nat)
  moreover have "take_bit 32 (int (unat w div 600)) = int (unat w div 600)"
    using lt by (intro take_bit_int_eq_self) simp_all
  ultimately have u: "uint (ucast (w div 600) :: 32 word) = int (unat w div 600)"
    by (simp add: unsigned_ucast_eq)
  note lt
  moreover have "- (2 ^ 31) \<le> int (unat w div 600)"
    by (rule order_trans [of _ 0]) simp_all
  ultimately have "signed_take_bit 31 (int (unat w div 600)) = int (unat w div 600)"
    by (rule signed_take_bit_int_eq_self [rotated])
  then show ?thesis
    by (simp add: sint_uint u BADNESS_AGE_DIV_def)
qed

lemma pid_cur_init: "pid (cur_init e) = pid_of_name (d_name e)"
  by (simp add: cur_init_def)

lemma score_oom_ok:
  assumes "0 \<le> r_oom_score e" "ignore_oom_score_adj args \<longrightarrow> 0 \<le> fst (r_oom_score_adj e)"
  shows "score_oom args e cur = Inr (cur\<lparr>badness := r_oom_score e
     - (if ignore_oom_score_adj args \<and> 0 < snd (r_oom_score_adj e) then snd (r_oom_score_adj e) else 0)\<rparr>)"
  using assms by (cases "ignore_oom_score_adj args") (simp_all add: score_oom_def Let_def)

lemma score_times_frame:
  "badness (score_times args e cur) = badness cur"
  "name (score_times args e cur) = name cur"
  "username (score_times args e cur) = username cur"
  by (simp_all add: score_times_def)

lemma score_name_ok:
  assumes "prefer_regex args \<noteq> None \<or> avoid_regex args \<noteq> None \<or> prefer_old args \<noteq> None \<longrightarrow> 0 \<le> fst (r_comm e)"
    and "prefer_old args \<noteq> None \<longrightarrow> valid (r_times e)"
    and "unat (c_runtime (r_times e)) div 600 < 2 ^ 31"
  obtains cur' where "score_name args e cur = Inr cur'"
    and "badness cur' = badness cur
         + (if matches (prefer_regex args) (name cur') then 300 else 0)
         + (if matches (avoid_regex args) (name cur') then - 300 else 0)
         + (if matches (prefer_old args) (name cur') then int (unat (c_runtime (r_times e)) div 600) else 0)"
    and "prefer_regex args \<noteq> None \<or> avoid_regex args \<noteq> None \<or> prefer_old args \<noteq> None \<Longrightarrow> name cur' = snd (r_comm e)"
    and "prefer_regex args = None \<and> avoid_regex args = None \<and> prefer_old args = None \<Longrightarrow> cur' = cur"
    and "username cur' = username cur"
proof (cases "prefer_regex args \<noteq> None \<or> avoid_regex args \<noteq> None \<or> prefer_old args \<noteq> None")
  case False
  then have "score_name args e cur = Inr cur"
    by (simp add: score_name_def)
  then show thesis
    using False by (intro that [of cur]) auto
next
  case True
  define p where "p = matches (prefer_regex args) (snd (r_comm e))"
  define a where "a = matches (avoid_regex args) (snd (r_comm e))"
  define ol where "ol = matches (prefer_old args) (snd (r_comm e))"
  have v: "ol \<Longrightarrow> valid (r_times e)"
    using assms(2) unfolding ol_def by (cases "prefer_old args") simp_all
  define b where "b = badness cur + (if p then 300 else 0) + (if a then - 300 else 0)
      + (if ol then int (unat (c_runtime (r_times e)) div 600) else 0)"
  have "score_name args e cur = Inr (cur\<lparr>name := snd (r_comm e), badness := b\<rparr>)"
    using True assms(1) v
    by (cases p; cases a; cases ol)
      (simp_all add: score_name_def Let_def BADNESS_PREFER_def BADNESS_AVOID_def
        age_cast [OF assms(3)] b_def flip: p_def a_def ol_def)
  then show thesis
    using True by (intro that [of "cur\<lparr>name := snd (r_comm e), badness := b\<rparr>"])
      (simp_all add: b_def p_def a_def ol_def)
qed

lemma score_user_ok:
  assumes "avoid_users args \<noteq> None \<longrightarrow> r_stat e \<noteq> None \<and> r_getpwuid e \<noteq> None"
  obtains cur' where "score_user args e cur = Inr cur'"
    and "badness cur' = badness cur + (if matches (avoid_users args) (username cur') then - 150 else 0)"
    and "name cur' = name cur"
    and "avoid_users args \<noteq> None \<Longrightarrow> username cur' = take MAX_USERLEN (the (r_getpwuid e))"
proof (cases "avoid_users args")
  case None
  then have "score_user args e cur = Inr cur"
    by (simp add: score_user_def)
  then show thesis
    using None by (intro that [of cur]) simp_all
next
  case (Some re)
  then obtain st_uid pw_name where r: "r_stat e = Some st_uid" "r_getpwuid e = Some pw_name"
    using assms by auto
  define u where "u = take MAX_USERLEN pw_name"
  have "score_user args e cur = Inr (if re u then cur\<lparr>username := u, badness := badness cur - 150\<rparr>
      else cur\<lparr>username := u\<rparr>)"
    by (simp add: score_user_def Some r Let_def BADNESS_AVOID_USER_def u_def)
  then show thesis
    using Some r by (intro that [of "if re u then cur\<lparr>username := u, badness := badness cur - 150\<rparr>
      else cur\<lparr>username := u\<rparr>"]) (simp_all add: u_def)
qed

text \<open>
  Claim C4. For every candidate the scan examines (a numeric entry with a pid above 1)
  whose reads all succeed, the badness is \<open>oom_score\<close>, minus \<open>oom_score_adj\<close> when
  \<open>ignore_oom_score_adj\<close> is set and the adjustment is positive, plus 300 when
  \<open>prefer_regex\<close> matches the name, plus -300 when \<open>avoid_regex\<close> matches the name, plus
  -150 when \<open>avoid_users\<close> matches the user's name, plus the run time in seconds divided
  by 600 when \<open>prefer_old\<close> matches the name. The quotient is cast to \<open>int\<close>; it is the
  quotient itself while it is below \<open>2 ^ 31\<close>.
\<close>

theorem badness_formula:
  assumes "isnumeric (d_name e)" "1 < pid_of_name (d_name e)" "reads_ok args e"
    and "unat (c_runtime (r_times e)) div 600 < 2 ^ 31"
  shows "\<exists>cur. examine args e = Inr cur
     \<and> badness cur = r_oom_score e
         - (if ignore_oom_score_adj args \<and> 0 < snd (r_oom_score_adj e) then snd (r_oom_score_adj e) else 0)
         + (if matches (prefer_regex args) (name cur) then 300 else 0)
         + (if matches (avoid_regex args) (name cur) then - 300 else 0)
         + (if matches (avoid_users args) (username cur) then - 150 else 0)
         + (if matches (prefer_old args) (name cur) then int (unat (c_runtime (r_times e)) div 600) else 0)
     \<and> (prefer_regex args \<noteq> None \<or> avoid_regex args \<noteq> None \<or> prefer_old args \<noteq> None
          \<longrightarrow> name cur = snd (r_comm e))
     \<and> (avoid_users args \<noteq> None \<longrightarrow> username cur = take MAX_USERLEN (the (r_getpwuid e)))"
proof -
  have ok: "0 \<le> r_oom_score e" "ignore_oom_score_adj args \<longrightarrow> 0 \<le> fst (r_oom_score_adj e)"
    "prefer_old args \<noteq> None \<longrightarrow> valid (r_times e)"
    "prefer_regex args \<noteq> None \<or> avoid_regex args \<noteq> None \<or> prefer_old args \<noteq> None \<longrightarrow> 0 \<le> fst (r_comm e)"
    "avoid_users args \<noteq> None \<longrightarrow> r_stat e \<noteq> None \<and> r_getpwuid e \<noteq> None"
    using assms(3) by (simp_all add: reads_ok_def)
  define c1 where "c1 = (cur_init e)\<lparr>badness := r_oom_score e
     - (if ignore_oom_score_adj args \<and> 0 < snd (r_oom_score_adj e) then snd (r_oom_score_adj e) else 0)\<rparr>"
  have s1: "score_oom args e (cur_init e) = Inr c1"
    unfolding c1_def by (rule score_oom_ok [OF ok(1,2)])
  obtain c2 where s2: "score_name args e (score_times args e c1) = Inr c2"
    and b2: "badness c2 = badness c1
         + (if matches (prefer_regex args) (name c2) then 300 else 0)
         + (if matches (avoid_regex args) (name c2) then - 300 else 0)
         + (if matches (prefer_old args) (name c2) then int (unat (c_runtime (r_times e)) div 600) else 0)"
    and n2: "prefer_regex args \<noteq> None \<or> avoid_regex args \<noteq> None \<or> prefer_old args \<noteq> None \<Longrightarrow> name c2 = snd (r_comm e)"
    using score_name_ok [OF ok(4,3) assms(4), of "score_times args e c1"]
    by (metis score_times_frame(1))
  obtain c3 where s3: "score_user args e c2 = Inr c3"
    and b3: "badness c3 = badness c2 + (if matches (avoid_users args) (username c3) then - 150 else 0)"
    and n3: "name c3 = name c2"
    and u3: "avoid_users args \<noteq> None \<Longrightarrow> username c3 = take MAX_USERLEN (the (r_getpwuid e))"
    using score_user_ok [OF ok(5), of c2] by metis
  have "examine args e = Inr c3"
    using assms(1,2) by (simp add: examine_def s1 s2 s3 pid_cur_init)
  moreover have "badness c1 = r_oom_score e
     - (if ignore_oom_score_adj args \<and> 0 < snd (r_oom_score_adj e) then snd (r_oom_score_adj e) else 0)"
    by (simp add: c1_def)
  ultimately show ?thesis
    using b2 b3 n2 n3 u3 by (intro exI [of _ c3]) simp
qed

lemma challenge_survivor:
  assumes "examine args e = Inr cur" "survives args e"
  shows "key v < key (fill e cur) \<Longrightarrow> challenge e v cur = Inr (fill e cur)"
    and "\<not> key v < key (fill e cur) \<Longrightarrow> \<exists>why. challenge e v cur = Inl why"
proof -
  have s: "0 < r_vm_rss_kib e" "0 \<le> fst (r_oom_score_adj2 e)" "snd (r_oom_score_adj2 e) \<noteq> - 1000"
    "name cur = [] \<longrightarrow> 0 \<le> fst (r_comm2 e)" "0 \<le> r_uid e"
    using assms by (simp_all add: survives_def)
  have k: "key v < key (fill e cur) \<longleftrightarrow>
      badness v < badness cur \<or> badness v = badness cur \<and> VmRSSkiB v < r_vm_rss_kib e"
    by (auto simp: key_def fill_def)
  show "key v < key (fill e cur) \<Longrightarrow> challenge e v cur = Inr (fill e cur)"
    unfolding k using s by (cases "name cur = []") (auto simp: challenge_def Let_def fill_def)
  show "\<not> key v < key (fill e cur) \<Longrightarrow> \<exists>why. challenge e v cur = Inl why"
    unfolding k using s by (auto simp: challenge_def Let_def)
qed

lemma challenge_non_survivor:
  assumes "examine args e = Inr cur" "\<not> survives args e"
  shows "\<exists>why. challenge e v cur = Inl why"
proof -
  have "\<not> (0 < r_vm_rss_kib e \<and> 0 \<le> fst (r_oom_score_adj2 e) \<and> snd (r_oom_score_adj2 e) \<noteq> - 1000
    \<and> (name cur = [] \<longrightarrow> 0 \<le> fst (r_comm2 e)) \<and> 0 \<le> r_uid e)"
    using assms by (simp add: survives_def)
  then show ?thesis
    by (auto simp: challenge_def Let_def)
qed

lemma victim_scan_step:
  "victim (scan_step args st e) =
     (if survives args e \<and> key (victim st) < key (candidate args e) then candidate args e
      else victim st)"
proof (cases "examine args e")
  case (Inl why)
  then show ?thesis
    by (simp add: scan_step_def survives_def)
next
  case (Inr cur)
  show ?thesis
  proof (cases "survives args e")
    case False
    then show ?thesis
      using challenge_non_survivor [OF Inr False, of "victim st"]
      by (auto simp: scan_step_def Inr)
  next
    case True
    note ch = challenge_survivor [OF Inr True, of "victim st"]
    show ?thesis
    proof (cases "key (victim st) < key (fill e cur)")
      case True
      then show ?thesis
        using ch(1) \<open>survives args e\<close> by (simp add: scan_step_def Inr candidate_def)
    next
      case False
      then show ?thesis
        using ch(2) by (auto simp: scan_step_def Inr candidate_def)
    qed
  qed
qed

lemma scan_from_selects:
  "key (victim st) \<le> key (victim (scan_from args st es))
   \<and> (\<forall>e \<in> set es. survives args e \<longrightarrow> key (candidate args e) \<le> key (victim (scan_from args st es)))
   \<and> (victim (scan_from args st es) = victim st \<or>
      (\<exists>k < length es. survives args (es ! k)
         \<and> victim (scan_from args st es) = candidate args (es ! k)
         \<and> key (victim st) < key (victim (scan_from args st es))
         \<and> (\<forall>j < k. survives args (es ! j)
               \<longrightarrow> key (candidate args (es ! j)) < key (victim (scan_from args st es)))))"
proof (induction es arbitrary: st)
  case Nil
  show ?case by simp
next
  case (Cons e es)
  let ?st = "scan_step args st e"
  let ?w = "victim (scan_from args ?st es)"
  note ih = Cons.IH [of ?st]
  note ih1 = ih [THEN conjunct1] and ih2 = ih [THEN conjunct2, THEN conjunct1]
    and ih3 = ih [THEN conjunct2, THEN conjunct2]
  have step: "victim ?st = (if survives args e \<and> key (victim st) < key (candidate args e)
      then candidate args e else victim st)"
    by (rule victim_scan_step)
  have le: "key (victim st) \<le> key (victim ?st)"
    by (simp add: step less_imp_le)
  have e_le: "survives args e \<Longrightarrow> key (candidate args e) \<le> key (victim ?st)"
    by (auto simp: step)
  have c1: "key (victim st) \<le> key ?w"
    using le ih1 by (rule order_trans)
  have c2: "\<forall>x \<in> set (e # es). survives args x \<longrightarrow> key (candidate args x) \<le> key ?w"
    using order_trans [OF e_le ih1] ih2 by auto
  have c3: "?w = victim st \<or>
      (\<exists>k < length (e # es). survives args ((e # es) ! k) \<and> ?w = candidate args ((e # es) ! k)
         \<and> key (victim st) < key ?w
         \<and> (\<forall>j < k. survives args ((e # es) ! j) \<longrightarrow> key (candidate args ((e # es) ! j)) < key ?w))"
    using ih3
  proof (elim disjE exE conjE)
    assume eq: "?w = victim ?st"
    show ?thesis
    proof (cases "survives args e \<and> key (victim st) < key (candidate args e)")
      case True
      then have "?w = candidate args e" using eq by (simp add: step)
      then show ?thesis using True by (intro disjI2 exI [of _ 0]) simp
    next
      case False
      then have "victim ?st = victim st" unfolding step by (rule if_not_P)
      then show ?thesis using eq by simp
    qed
  next
    fix k
    assume k: "k < length es" "survives args (es ! k)" "?w = candidate args (es ! k)"
      "key (victim ?st) < key ?w"
      "\<forall>j<k. survives args (es ! j) \<longrightarrow> key (candidate args (es ! j)) < key ?w"
    have "key (victim st) < key ?w"
      using le k(4) by (rule le_less_trans)
    moreover have "\<forall>j<Suc k. survives args ((e # es) ! j) \<longrightarrow> key (candidate args ((e # es) ! j)) < key ?w"
    proof (intro allI impI)
      fix j assume j: "j < Suc k" "survives args ((e # es) ! j)"
      show "key (candidate args ((e # es) ! j)) < key ?w"
      proof (cases j)
        case 0
        then show ?thesis using le_less_trans [OF e_le k(4)] j(2) by simp
      next
        case (Suc j')
        then show ?thesis using j k(5) by simp
      qed
    qed
    ultimately show ?thesis
      using k(1,2,3) by (intro disjI2 exI [of _ "Suc k"]) simp
  qed
  show ?case
    using c1 c2 c3 by (simp only: scan_from.simps)
qed

lemmas scan_eval =
  examine_def score_oom_def score_times_def score_name_def score_user_def cur_init_def
  challenge_def scan_step_def scan_procs_def survives_def candidate_def fill_def key_def
  victim_zero_def isnumeric_def isdigit_def pid_of_name_def Let_def
  BADNESS_PREFER_def BADNESS_AVOID_def BADNESS_AVOID_USER_def BADNESS_AGE_DIV_def MAX_USERLEN_def
  proc_entry_def php_cgi_proc_def mysqld_proc_def bash_proc_def kthreadd_proc_def
  conf_sample_args_def

lemma score_oom_pid: "score_oom args e c = Inr c' \<Longrightarrow> pid c' = pid c"
  by (auto simp: score_oom_def Let_def split: if_splits)

lemma score_times_pid: "pid (score_times args e c) = pid c"
  by (simp add: score_times_def)

lemma score_name_pid: "score_name args e c = Inr c' \<Longrightarrow> pid c' = pid c"
  by (auto simp: score_name_def Let_def split: if_splits)

lemma score_user_pid: "score_user args e c = Inr c' \<Longrightarrow> pid c' = pid c"
  by (auto simp: score_user_def Let_def split: if_splits option.splits)

lemma examine_pid:
  assumes "examine args e = Inr cur"
  shows "pid cur = pid_of_name (d_name e)" and "1 < pid cur"
proof -
  have n: "\<not> pid (cur_init e) \<le> 1"
    using assms by (auto simp: examine_def split: if_splits)
  obtain c1 c2 where s: "score_oom args e (cur_init e) = Inr c1"
    "score_name args e (score_times args e c1) = Inr c2" "score_user args e c2 = Inr cur"
    using assms by (auto simp: examine_def split: if_splits sum.splits)
  have "pid cur = pid (cur_init e)"
    using score_oom_pid [OF s(1)] score_name_pid [OF s(2)] score_user_pid [OF s(3)]
    by (simp add: score_times_pid)
  then show "pid cur = pid_of_name (d_name e)" and "1 < pid cur"
    using n by (simp_all add: pid_cur_init)
qed

lemma survivor_candidate:
  assumes "survives args e"
  shows "1 < pid (candidate args e)" and "0 < VmRSSkiB (candidate args e)"
    and "candidate args e \<noteq> victim_zero"
    and "key victim_zero < key (candidate args e) \<longleftrightarrow> 0 \<le> badness (candidate args e)"
proof -
  obtain cur where cur: "examine args e = Inr cur" and rss: "0 < r_vm_rss_kib e"
    using assms by (auto simp: survives_def split: sum.splits)
  show p: "1 < pid (candidate args e)"
    using examine_pid(2) [OF cur] by (simp add: candidate_def cur fill_def)
  show r: "0 < VmRSSkiB (candidate args e)"
    using rss by (simp add: candidate_def cur fill_def)
  show "candidate args e \<noteq> victim_zero"
    using p by (auto simp: victim_zero_def)
  show "key victim_zero < key (candidate args e) \<longleftrightarrow> 0 \<le> badness (candidate args e)"
    using r by (auto simp: key_def victim_zero_def)
qed

lemma key_less_iff:
  "key v < key c \<longleftrightarrow> badness v < badness c \<or> badness c = badness v \<and> VmRSSkiB v < VmRSSkiB c"
  by (auto simp: key_def)

text \<open>
  Claim C1, as the code has it. The running best starts as the zero-filled struct
  (badness 0, resident set size 0). A surviving candidate replaces the running best,
  the zero-filled start included, exactly when its badness is larger, or equal with a
  larger resident set size; any other entry leaves the best as it is. So the first
  surviving candidate becomes the best exactly when its badness is not negative. Of two
  surviving candidates \<open>a\<close> and \<open>b\<close> met in this order, the first with a badness that is
  not negative, the victim is \<open>b\<close> exactly when the key of \<open>b\<close> is larger: \<open>a\<close> wins full
  ties. After a whole scan no surviving candidate has a larger key than the victim, and
  the victim is either the zero-filled struct or the first surviving candidate with
  the largest key, whose badness is not negative.
\<close>

theorem selection_order:
  "(survives args e \<longrightarrow>
      victim (scan_step args st e) =
        (if badness (victim st) < badness (candidate args e)
            \<or> badness (candidate args e) = badness (victim st)
              \<and> VmRSSkiB (victim st) < VmRSSkiB (candidate args e)
         then candidate args e else victim st))
   \<and> (\<not> survives args e \<longrightarrow> victim (scan_step args st e) = victim st)
   \<and> (survives args e \<longrightarrow>
        (victim (scan_procs args [e]) = candidate args e \<longleftrightarrow> 0 \<le> badness (candidate args e)))
   \<and> (survives args a \<and> survives args b \<and> 0 \<le> badness (candidate args a) \<longrightarrow>
        victim (scan_procs args [a, b]) =
          (if key (candidate args a) < key (candidate args b) then candidate args b
           else candidate args a))
   \<and> (\<forall>x \<in> set es. survives args x \<longrightarrow> key (candidate args x) \<le> key (victim (scan_procs args es)))
   \<and> (victim (scan_procs args es) = victim_zero \<or>
        (\<exists>k < length es. survives args (es ! k)
           \<and> victim (scan_procs args es) = candidate args (es ! k)
           \<and> 0 \<le> badness (candidate args (es ! k))
           \<and> (\<forall>j < k. survives args (es ! j)
                 \<longrightarrow> key (candidate args (es ! j)) < key (candidate args (es ! k)))))"
proof -
  let ?z = "\<lparr>victim = victim_zero, candidates = 0\<rparr>"
  have one: "victim (scan_procs args [e]) =
      (if survives args e \<and> key victim_zero < key (candidate args e) then candidate args e
       else victim_zero)"
    by (simp add: scan_procs_def victim_scan_step)
  have c3: "survives args e \<longrightarrow>
      (victim (scan_procs args [e]) = candidate args e \<longleftrightarrow> 0 \<le> badness (candidate args e))"
    using survivor_candidate(3,4) [of args e] by (auto simp: one)
  have c4: "survives args a \<and> survives args b \<and> 0 \<le> badness (candidate args a) \<longrightarrow>
      victim (scan_procs args [a, b]) =
        (if key (candidate args a) < key (candidate args b) then candidate args b
         else candidate args a)"
  proof
    assume h: "survives args a \<and> survives args b \<and> 0 \<le> badness (candidate args a)"
    then have "victim (scan_step args ?z a) = candidate args a"
      using survivor_candidate(4) [of args a] by (simp add: victim_scan_step)
    then show "victim (scan_procs args [a, b]) =
        (if key (candidate args a) < key (candidate args b) then candidate args b
         else candidate args a)"
      using h by (simp add: scan_procs_def victim_scan_step)
  qed
  note sel = scan_from_selects [of ?z args es, folded scan_procs_def]
  have c6: "victim (scan_procs args es) = victim_zero \<or>
      (\<exists>k < length es. survives args (es ! k)
         \<and> victim (scan_procs args es) = candidate args (es ! k)
         \<and> 0 \<le> badness (candidate args (es ! k))
         \<and> (\<forall>j < k. survives args (es ! j)
               \<longrightarrow> key (candidate args (es ! j)) < key (candidate args (es ! k))))"
    using sel [THEN conjunct2, THEN conjunct2]
  proof (elim disjE exE conjE)
    assume "victim (scan_procs args es) = victim ?z"
    then show ?thesis by simp
  next
    fix k
    assume k: "k < length es" "survives args (es ! k)"
      "victim (scan_procs args es) = candidate args (es ! k)"
      "key (victim ?z) < key (victim (scan_procs args es))"
      "\<forall>j<k. survives args (es ! j) \<longrightarrow> key (candidate args (es ! j)) < key (victim (scan_procs args es))"
    have "0 \<le> badness (candidate args (es ! k))"
      using k(4) survivor_candidate(4) [OF k(2)] by (simp add: k(3))
    then show ?thesis
      using k by (intro disjI2 exI [of _ k]) simp
  qed
  show ?thesis
    using c3 c4 sel [THEN conjunct2, THEN conjunct1] c6
    by (simp add: victim_scan_step key_less_iff)
qed

text \<open>
  The claim as it was stated lets the first surviving candidate become the best
  unconditionally. Under the sample configuration \<open>mysqld\<close> survives with badness
  \<open>100 - 300\<close>; alone in \<open>/proc\<close>, it is not selected.
\<close>

theorem selection_order_counterexample:
  "survives conf_sample_args mysqld_proc
   \<and> pid (candidate conf_sample_args mysqld_proc) = 977
   \<and> badness (candidate conf_sample_args mysqld_proc) = - 200
   \<and> VmRSSkiB (candidate conf_sample_args mysqld_proc) = 409600
   \<and> victim (scan_procs conf_sample_args [mysqld_proc]) \<noteq> candidate conf_sample_args mysqld_proc
   \<and> victim (scan_procs conf_sample_args [mysqld_proc]) = victim_zero"
  by (simp add: scan_eval)

theorem selection_order_witness:
  "victim (scan_step conf_sample_args
       \<lparr>victim = candidate conf_sample_args bash_proc, candidates = 1\<rparr> php_cgi_proc)
     = candidate conf_sample_args php_cgi_proc
   \<and> victim (scan_step conf_sample_args
       \<lparr>victim = candidate conf_sample_args bash_proc, candidates = 1\<rparr> kthreadd_proc)
     = candidate conf_sample_args bash_proc
   \<and> victim (scan_procs conf_sample_args [mysqld_proc]) \<noteq> candidate conf_sample_args mysqld_proc
   \<and> victim (scan_procs conf_sample_args [php_cgi_proc, bash_proc]) = candidate conf_sample_args php_cgi_proc
   \<and> victim (scan_procs conf_sample_args [bash_proc, php_cgi_proc]) = candidate conf_sample_args php_cgi_proc
   \<and> key (candidate conf_sample_args bash_proc)
       \<le> key (victim (scan_procs conf_sample_args [mysqld_proc, bash_proc, php_cgi_proc]))"
proof -
  let ?args = conf_sample_args
  let ?st = "\<lparr>victim = candidate ?args bash_proc, candidates = 1\<rparr>"
  let ?es = "[mysqld_proc, bash_proc, php_cgi_proc]"
  have s: "survives ?args php_cgi_proc" "survives ?args bash_proc" "survives ?args mysqld_proc"
    "\<not> survives ?args kthreadd_proc"
    by (simp_all add: scan_eval)
  have b: "badness (candidate ?args php_cgi_proc) = 432" "badness (candidate ?args bash_proc) = 70"
    "badness (candidate ?args mysqld_proc) = - 200"
    by (simp_all add: scan_eval)
  have k: "\<not> key (candidate ?args php_cgi_proc) < key (candidate ?args bash_proc)"
    "key (candidate ?args bash_proc) < key (candidate ?args php_cgi_proc)"
    by (simp_all add: key_less_iff b)
  have m: "bash_proc \<in> set ?es"
    by simp
  note t1 = selection_order [of ?args php_cgi_proc ?st php_cgi_proc bash_proc ?es]
  note t2 = selection_order [of ?args kthreadd_proc ?st bash_proc php_cgi_proc ?es]
  note t3 = selection_order [of ?args mysqld_proc ?st bash_proc php_cgi_proc ?es]
  have "victim (scan_step ?args ?st php_cgi_proc) = candidate ?args php_cgi_proc"
    using t1 [THEN conjunct1, THEN mp, OF s(1)] by (simp add: b)
  moreover have "victim (scan_step ?args ?st kthreadd_proc) = candidate ?args bash_proc"
    using t2 [THEN conjunct2, THEN conjunct1, THEN mp, OF s(4)] by simp
  moreover have "victim (scan_procs ?args [mysqld_proc]) \<noteq> candidate ?args mysqld_proc"
    using t3 [THEN conjunct2, THEN conjunct2, THEN conjunct1, THEN mp, OF s(3)] by (simp add: b)
  moreover have "victim (scan_procs ?args [php_cgi_proc, bash_proc]) = candidate ?args php_cgi_proc"
    using t1 [THEN conjunct2, THEN conjunct2, THEN conjunct2, THEN conjunct1, THEN mp] s(1,2) k(1)
    by (simp add: b)
  moreover have "victim (scan_procs ?args [bash_proc, php_cgi_proc]) = candidate ?args php_cgi_proc"
    using t2 [THEN conjunct2, THEN conjunct2, THEN conjunct2, THEN conjunct1, THEN mp] s(1,2) k(2)
    by (simp add: b)
  moreover have "key (candidate ?args bash_proc) \<le> key (victim (scan_procs ?args ?es))"
    using t1 [THEN conjunct2, THEN conjunct2, THEN conjunct2, THEN conjunct2, THEN conjunct1,
      THEN bspec, OF m, THEN mp, OF s(2)] .
  ultimately show ?thesis
    by (intro conjI)
qed

theorem badness_formula_witness:
  "\<exists>cur. examine (conf_sample_args\<lparr>ignore_oom_score_adj := True\<rparr>) php_cgi_proc = Inr cur
     \<and> badness cur = 120 - 50 + 300 + 0 + 0 + 12"
proof -
  let ?args = "conf_sample_args\<lparr>ignore_oom_score_adj := True\<rparr>"
  have h: "isnumeric (d_name php_cgi_proc)" "1 < pid_of_name (d_name php_cgi_proc)"
    "reads_ok ?args php_cgi_proc" "unat (c_runtime (r_times php_cgi_proc)) div 600 < 2 ^ 31"
    by (simp_all add: scan_eval reads_ok_def)
  obtain cur where c: "examine ?args php_cgi_proc = Inr cur"
    and b: "badness cur = r_oom_score php_cgi_proc
         - (if ignore_oom_score_adj ?args \<and> 0 < snd (r_oom_score_adj php_cgi_proc)
            then snd (r_oom_score_adj php_cgi_proc) else 0)
         + (if matches (prefer_regex ?args) (name cur) then 300 else 0)
         + (if matches (avoid_regex ?args) (name cur) then - 300 else 0)
         + (if matches (avoid_users ?args) (username cur) then - 150 else 0)
         + (if matches (prefer_old ?args) (name cur)
            then int (unat (c_runtime (r_times php_cgi_proc)) div 600) else 0)"
    and n: "name cur = snd (r_comm php_cgi_proc)"
    and u: "username cur = take MAX_USERLEN (the (r_getpwuid php_cgi_proc))"
    using badness_formula [OF h] by (auto simp: conf_sample_args_def)
  have "badness cur = 120 - 50 + 300 + 0 + 0 + 12"
    unfolding b n u
    by (simp add: conf_sample_args_def php_cgi_proc_def proc_entry_def MAX_USERLEN_def)
  then show ?thesis
    using c by blast
qed

lemma survives_adj: "survives args e \<Longrightarrow> snd (r_oom_score_adj2 e) \<noteq> - 1000"
  by (auto simp: survives_def split: sum.splits)

text \<open>
  What a scan returns: the zero-filled struct (no victim), or the struct of an entry
  of \<open>/proc\<close> with a pid above 1, a positive resident set size and an \<open>oom_score_adj\<close>
  other than -1000.
\<close>

theorem scan_victim_sound:
  "victim (scan_procs args es) = victim_zero
   \<or> (\<exists>e \<in> set es. victim (scan_procs args es) = candidate args e
         \<and> 1 < pid (candidate args e) \<and> 0 < VmRSSkiB (candidate args e)
         \<and> snd (r_oom_score_adj2 e) \<noteq> - 1000)"
proof -
  let ?z = "\<lparr>victim = victim_zero, candidates = 0\<rparr>"
  note sel = scan_from_selects [of ?z args es, folded scan_procs_def,
      THEN conjunct2, THEN conjunct2]
  from sel show ?thesis
  proof (elim disjE exE conjE)
    assume "victim (scan_procs args es) = victim ?z"
    then show ?thesis by simp
  next
    fix k
    assume k: "k < length es" "survives args (es ! k)"
      "victim (scan_procs args es) = candidate args (es ! k)"
    have "es ! k \<in> set es"
      using k(1) by simp
    then show ?thesis
      using k(2,3) survivor_candidate(1,2) [OF k(2)] survives_adj [OF k(2)]
      by (intro disjI2 bexI [of _ "es ! k"]) simp_all
  qed
qed

section \<open>Properties of the kill escalator\<close>

declare kw_loop.simps [simp del]

lemma secs_ge_iff: "SIGTERM_WAIT \<le> real (i * poll_ms) / 1000 \<longleftrightarrow> 60 \<le> i"
proof -
  have "SIGTERM_WAIT \<le> real (i * poll_ms) / 1000 \<longleftrightarrow> (6::real) * 1000 \<le> real (i * 100)"
    by (simp add: SIGTERM_WAIT_def poll_ms_def field_simps)
  also have "\<dots> \<longleftrightarrow> real (60 * 100) \<le> real (i * 100)"
    by simp
  also have "\<dots> \<longleftrightarrow> 60 * 100 \<le> i * 100"
    by (simp only: of_nat_le_iff)
  also have "\<dots> \<longleftrightarrow> 60 \<le> i"
    by simp
  finally show ?thesis .
qed

lemma escalation_due_iff:
  "escalation_due args env i \<longleftrightarrow>
     60 \<le> i \<or> (MemAvailablePercent (kw_meminfo env i) \<le> mem_kill_percent args
        \<and> SwapFreePercent (kw_meminfo env i) \<le> swap_kill_percent args)"
  unfolding escalation_due_def secs_ge_iff by (rule refl)

lemma escalation_due_60: "60 \<le> i \<Longrightarrow> escalation_due args env i"
  unfolding escalation_due_iff by (rule disjI1)

lemma kw_step_timeout: "\<not> i < 100 \<Longrightarrow> kw_loop args env p i sg = (Inl Timeout, [])"
  by (simp add: kw_loop.simps [of args env p i sg])

lemma kw_step_quiet_dead:
  "i < 100 \<Longrightarrow> sg = SIGKILL \<or> \<not> escalation_due args env i \<Longrightarrow> \<not> kw_alive env i \<Longrightarrow>
     kw_loop args env p i sg = (Inr (), [])"
  by (auto simp: kw_loop.simps [of args env p i sg] Let_def)

lemma kw_step_quiet_alive:
  "i < 100 \<Longrightarrow> sg = SIGKILL \<or> \<not> escalation_due args env i \<Longrightarrow> kw_alive env i \<Longrightarrow>
     kw_loop args env p i sg =
       (fst (kw_loop args env p (Suc i) sg), tick # snd (kw_loop args env p (Suc i) sg))"
  by (auto simp: kw_loop.simps [of args env p i sg] Let_def poll_ms_def)

lemma kw_step_esc_failed:
  "i < 100 \<Longrightarrow> sg \<noteq> SIGKILL \<Longrightarrow> escalation_due args env i \<Longrightarrow> kw_kill_esc env i \<noteq> 0 \<Longrightarrow>
     kw_loop args env p i sg = (Inl (KillFailed (kw_kill_esc env i)), [Kill p SIGKILL])"
  by (simp add: kw_loop.simps [of args env p i sg] Let_def)

lemma kw_step_esc_dead:
  "i < 100 \<Longrightarrow> sg \<noteq> SIGKILL \<Longrightarrow> escalation_due args env i \<Longrightarrow> kw_kill_esc env i = 0 \<Longrightarrow>
     \<not> kw_alive env i \<Longrightarrow> kw_loop args env p i sg = (Inr (), [Kill p SIGKILL])"
  by (simp add: kw_loop.simps [of args env p i sg] Let_def)

lemma kw_step_esc_alive:
  "i < 100 \<Longrightarrow> sg \<noteq> SIGKILL \<Longrightarrow> escalation_due args env i \<Longrightarrow> kw_kill_esc env i = 0 \<Longrightarrow>
     kw_alive env i \<Longrightarrow>
     kw_loop args env p i sg =
       (fst (kw_loop args env p (Suc i) SIGKILL),
        Kill p SIGKILL # tick # snd (kw_loop args env p (Suc i) SIGKILL))"
  by (simp add: kw_loop.simps [of args env p i sg] Let_def poll_ms_def)

text \<open>Quiet ticks: no escalation is due (or SIGKILL was sent already) and the process lives.\<close>

lemma kw_quiet_run:
  assumes "i + n \<le> 100"
    and "sg = SIGKILL \<or> (\<forall>j. i \<le> j \<and> j < i + n \<longrightarrow> \<not> escalation_due args env j)"
    and "\<forall>j. i \<le> j \<and> j < i + n \<longrightarrow> kw_alive env j"
  shows "kw_loop args env p i sg =
     (fst (kw_loop args env p (i + n) sg), replicate n tick @ snd (kw_loop args env p (i + n) sg))"
  using assms
proof (induction n arbitrary: i)
  case 0
  then show ?case by simp
next
  case (Suc n)
  have i: "i < 100" "sg = SIGKILL \<or> \<not> escalation_due args env i" "kw_alive env i"
    using Suc.prems by auto
  have "kw_loop args env p (Suc i) sg =
     (fst (kw_loop args env p (Suc i + n) sg), replicate n tick @ snd (kw_loop args env p (Suc i + n) sg))"
    using Suc.prems by (intro Suc.IH) auto
  then show ?case
    by (simp add: kw_step_quiet_alive [OF i])
qed

lemma kill_wait_loop:
  "\<not> dryrun args \<Longrightarrow> kw_kill env = 0 \<Longrightarrow>
     kill_wait args env p SIGTERM =
       (fst (kw_loop args env p 0 SIGTERM), Kill p SIGTERM # snd (kw_loop args env p 0 SIGTERM))"
  by (simp add: kill_wait_def SIGTERM_def)

lemma kw_until_escalation:
  assumes "E < 100" "\<forall>j<E. \<not> escalation_due args env j" "\<forall>j<E. kw_alive env j"
  shows "kw_loop args env p 0 SIGTERM =
     (fst (kw_loop args env p E SIGTERM), replicate E tick @ snd (kw_loop args env p E SIGTERM))"
  using kw_quiet_run [of 0 E SIGTERM args env p] assms by simp

lemma kw_after_sigkill_dead:
  assumes "i \<le> D" "D < 100" "\<not> kw_alive env D" "\<forall>j. i \<le> j \<and> j < D \<longrightarrow> kw_alive env j"
  shows "kw_loop args env p i SIGKILL = (Inr (), replicate (D - i) tick)"
proof -
  have "kw_loop args env p i SIGKILL =
     (fst (kw_loop args env p (i + (D - i)) SIGKILL),
      replicate (D - i) tick @ snd (kw_loop args env p (i + (D - i)) SIGKILL))"
    using assms by (intro kw_quiet_run) auto
  moreover have "kw_loop args env p D SIGKILL = (Inr (), [])"
    using assms by (intro kw_step_quiet_dead) auto
  ultimately show ?thesis
    using assms(1) by simp
qed

lemma kw_after_sigkill_timeout:
  assumes "i \<le> 100" "\<forall>j. i \<le> j \<and> j < 100 \<longrightarrow> kw_alive env j"
  shows "kw_loop args env p i SIGKILL = (Inl Timeout, replicate (100 - i) tick)"
proof -
  have "kw_loop args env p i SIGKILL =
     (fst (kw_loop args env p (i + (100 - i)) SIGKILL),
      replicate (100 - i) tick @ snd (kw_loop args env p (i + (100 - i)) SIGKILL))"
    using assms by (intro kw_quiet_run) auto
  moreover have "kw_loop args env p 100 SIGKILL = (Inl Timeout, [])"
    by (intro kw_step_timeout) simp
  ultimately show ?thesis
    using assms(1) by simp
qed

text \<open>
  Claim C3, as the code has it. \<open>kill_wait\<close> is called with SIGTERM and \<open>dryrun\<close> off;
  \<open>E\<close> is the first tick at which 6.0 seconds have passed or the fresh snapshot has
  memory and swap at or below the kill percentages (it is at most tick 60). If the
  first \<open>kill\<close> fails, its failure is returned without a tick. Otherwise: if the process is
  gone at a tick \<open>D\<close> before \<open>E\<close>, the call returns success there and SIGKILL is never
  sent; else SIGKILL is sent once, at tick \<open>E\<close>, and if that \<open>kill\<close> fails the failure is
  returned at once; else the call returns success at the first tick \<open>D\<close> at which the
  process is gone, and fails with \<open>ETIME\<close> after 100 ticks of 100 ms if it never is.
\<close>

theorem kill_wait_sigterm:
  assumes "\<not> dryrun args"
    and "E < 100" "escalation_due args env E" "\<forall>j<E. \<not> escalation_due args env j"
  shows "E \<le> 60
    \<and> (kw_kill env \<noteq> 0 \<longrightarrow>
         kill_wait args env p SIGTERM = (Inl (KillFailed (kw_kill env)), [Kill p SIGTERM]))
    \<and> (kw_kill env = 0 \<and> D < E \<and> \<not> kw_alive env D \<and> (\<forall>j<D. kw_alive env j) \<longrightarrow>
         kill_wait args env p SIGTERM = (Inr (), Kill p SIGTERM # replicate D (Usleep 100000)))
    \<and> (kw_kill env = 0 \<and> (\<forall>j<E. kw_alive env j) \<and> kw_kill_esc env E \<noteq> 0 \<longrightarrow>
         kill_wait args env p SIGTERM =
           (Inl (KillFailed (kw_kill_esc env E)),
            Kill p SIGTERM # replicate E (Usleep 100000) @ [Kill p SIGKILL]))
    \<and> (kw_kill env = 0 \<and> kw_kill_esc env E = 0 \<and> E \<le> D \<and> D < 100 \<and> \<not> kw_alive env D
          \<and> (\<forall>j<D. kw_alive env j) \<longrightarrow>
         kill_wait args env p SIGTERM =
           (Inr (), Kill p SIGTERM # replicate E (Usleep 100000)
              @ Kill p SIGKILL # replicate (D - E) (Usleep 100000)))
    \<and> (kw_kill env = 0 \<and> kw_kill_esc env E = 0 \<and> (\<forall>j<100. kw_alive env j) \<longrightarrow>
         kill_wait args env p SIGTERM =
           (Inl Timeout, Kill p SIGTERM # replicate E (Usleep 100000)
              @ Kill p SIGKILL # replicate (100 - E) (Usleep 100000)))"
proof (intro conjI impI)
  show "E \<le> 60"
    using assms(4) escalation_due_60 [of 60 args env] by (meson le_refl not_le_imp_less)
next
  assume "kw_kill env \<noteq> 0"
  then show "kill_wait args env p SIGTERM = (Inl (KillFailed (kw_kill env)), [Kill p SIGTERM])"
    using assms(1) by (simp add: kill_wait_def SIGTERM_def)
next
  assume a: "kw_kill env = 0 \<and> D < E \<and> \<not> kw_alive env D \<and> (\<forall>j<D. kw_alive env j)"
  have "kw_loop args env p 0 SIGTERM =
     (fst (kw_loop args env p (0 + D) SIGTERM), replicate D tick @ snd (kw_loop args env p (0 + D) SIGTERM))"
    using a assms(2,4) by (intro kw_quiet_run) auto
  moreover have "kw_loop args env p D SIGTERM = (Inr (), [])"
    using a assms(2,4) by (intro kw_step_quiet_dead) auto
  ultimately show "kill_wait args env p SIGTERM = (Inr (), Kill p SIGTERM # replicate D tick)"
    using a assms(1) by (simp add: kill_wait_loop)
next
  assume a: "kw_kill env = 0 \<and> (\<forall>j<E. kw_alive env j) \<and> kw_kill_esc env E \<noteq> 0"
  have "kw_loop args env p E SIGTERM = (Inl (KillFailed (kw_kill_esc env E)), [Kill p SIGKILL])"
    using a assms(2,3) by (intro kw_step_esc_failed) (simp_all add: SIGTERM_def SIGKILL_def)
  then show "kill_wait args env p SIGTERM =
      (Inl (KillFailed (kw_kill_esc env E)), Kill p SIGTERM # replicate E tick @ [Kill p SIGKILL])"
    using a assms(1) kw_until_escalation [OF assms(2,4), of p] by (simp add: kill_wait_loop)
next
  assume a: "kw_kill env = 0 \<and> kw_kill_esc env E = 0 \<and> E \<le> D \<and> D < 100 \<and> \<not> kw_alive env D
      \<and> (\<forall>j<D. kw_alive env j)"
  then have al: "\<forall>j<E. kw_alive env j"
    by auto
  have "kw_loop args env p E SIGTERM = (Inr (), Kill p SIGKILL # replicate (D - E) tick)"
  proof (cases "D = E")
    case True
    then show ?thesis
      using a assms(2,3) kw_step_esc_dead [of E SIGTERM args env p] by (simp add: SIGTERM_def SIGKILL_def)
  next
    case False
    then have lt: "E < D" "kw_alive env E" "Suc E \<le> D" using a by auto
    have "kw_loop args env p (Suc E) SIGKILL = (Inr (), replicate (D - Suc E) tick)"
      using a lt by (intro kw_after_sigkill_dead) auto
    moreover have "replicate (D - E) tick = tick # replicate (D - Suc E) tick"
      using lt(1) by (simp add: Suc_diff_Suc flip: replicate_Suc)
    ultimately show ?thesis
      using a assms(2,3) lt(2) kw_step_esc_alive [of E SIGTERM args env p]
      by (simp add: SIGTERM_def SIGKILL_def)
  qed
  then show "kill_wait args env p SIGTERM =
      (Inr (), Kill p SIGTERM # replicate E tick @ Kill p SIGKILL # replicate (D - E) tick)"
    using a assms(1) kw_until_escalation [OF assms(2,4) al, of p] by (simp add: kill_wait_loop)
next
  assume a: "kw_kill env = 0 \<and> kw_kill_esc env E = 0 \<and> (\<forall>j<100. kw_alive env j)"
  then have al: "\<forall>j<E. kw_alive env j" "kw_alive env E"
    using assms(2) by auto
  have "kw_loop args env p (Suc E) SIGKILL = (Inl Timeout, replicate (100 - Suc E) tick)"
    using a assms(2) by (intro kw_after_sigkill_timeout) auto
  moreover have "replicate (100 - E) tick = tick # replicate (100 - Suc E) tick"
    using assms(2) by (simp add: Suc_diff_Suc flip: replicate_Suc)
  ultimately have "kw_loop args env p E SIGTERM = (Inl Timeout, Kill p SIGKILL # replicate (100 - E) tick)"
    using a assms(2,3) al(2) kw_step_esc_alive [of E SIGTERM args env p]
    by (simp add: SIGTERM_def SIGKILL_def)
  then show "kill_wait args env p SIGTERM =
      (Inl Timeout, Kill p SIGTERM # replicate E tick @ Kill p SIGKILL # replicate (100 - E) tick)"
    using a assms(1) kw_until_escalation [OF assms(2,4) al(1), of p] by (simp add: kill_wait_loop)
qed

text \<open>
  The claim as it was stated returns success at the first tick at which the process is
  gone. Here the process is gone at tick 0, memory is below the kill percentages, and
  the SIGKILL that escalates fails with \<open>ESRCH\<close>: the call returns that failure.
\<close>

theorem kill_wait_sigterm_counterexample:
  "\<not> dryrun default_args
   \<and> kw_kill (kw_example 0 ESRCH 0) = 0
   \<and> \<not> kw_alive (kw_example 0 ESRCH 0) 0
   \<and> kill_wait default_args (kw_example 0 ESRCH 0) 4242 SIGTERM
       = (Inl (KillFailed ESRCH), [Kill 4242 SIGTERM, Kill 4242 SIGKILL])
   \<and> fst (kill_wait default_args (kw_example 0 ESRCH 0) 4242 SIGTERM) \<noteq> Inr ()"
  by (simp add: kill_wait_def kw_loop.simps [of _ _ _ 0] escalation_due_iff kw_example_def
      default_args_def snapshot_pct_def SIGTERM_def SIGKILL_def ESRCH_def Let_def)

theorem kill_wait_sigterm_witness:
  "kill_wait default_args (kw_example 100 0 3) 4242 SIGTERM
     = (Inr (), Kill 4242 SIGTERM # replicate 3 (Usleep 100000))
   \<and> kill_wait default_args (kw_example 2 EPERM 100) 4242 SIGTERM
     = (Inl (KillFailed EPERM), Kill 4242 SIGTERM # replicate 2 (Usleep 100000) @ [Kill 4242 SIGKILL])
   \<and> kill_wait default_args (kw_example 100 0 62) 4242 SIGTERM
     = (Inr (), Kill 4242 SIGTERM # replicate 60 (Usleep 100000)
          @ Kill 4242 SIGKILL # replicate 2 (Usleep 100000))
   \<and> kill_wait default_args (kw_example 100 0 100) 4242 SIGTERM
     = (Inl Timeout, Kill 4242 SIGTERM # replicate 60 (Usleep 100000)
          @ Kill 4242 SIGKILL # replicate 40 (Usleep 100000))"
proof -
  have nd: "\<not> dryrun default_args"
    by (simp add: default_args_def)
  have e60: "(60::nat) < 100" "escalation_due default_args (kw_example 100 r d) 60"
    "\<forall>j<60. \<not> escalation_due default_args (kw_example 100 r d) j" for r d
    by (simp_all add: escalation_due_iff kw_example_def default_args_def snapshot_pct_def)
  have e2: "(2::nat) < 100" "escalation_due default_args (kw_example 2 EPERM 100) 2"
    "\<forall>j<2. \<not> escalation_due default_args (kw_example 2 EPERM 100) j"
    by (simp_all add: escalation_due_iff kw_example_def default_args_def snapshot_pct_def)
  have a: "kw_kill (kw_example 100 0 3) = 0 \<and> (3::nat) < 60 \<and> \<not> kw_alive (kw_example 100 0 3) 3
      \<and> (\<forall>j<3. kw_alive (kw_example 100 0 3) j)"
    by (simp add: kw_example_def)
  have b: "kw_kill (kw_example 2 EPERM 100) = 0 \<and> (\<forall>j<2. kw_alive (kw_example 2 EPERM 100) j)
      \<and> kw_kill_esc (kw_example 2 EPERM 100) 2 \<noteq> 0"
    by (simp add: kw_example_def EPERM_def)
  have c: "kw_kill (kw_example 100 0 62) = 0 \<and> kw_kill_esc (kw_example 100 0 62) 60 = 0
      \<and> (60::nat) \<le> 62 \<and> (62::nat) < 100 \<and> \<not> kw_alive (kw_example 100 0 62) 62
      \<and> (\<forall>j<62. kw_alive (kw_example 100 0 62) j)"
    by (simp add: kw_example_def)
  have d: "kw_kill (kw_example 100 0 100) = 0 \<and> kw_kill_esc (kw_example 100 0 100) 60 = 0
      \<and> (\<forall>j<100. kw_alive (kw_example 100 0 100) j)"
    by (simp add: kw_example_def)
  note ta = kill_wait_sigterm [OF nd e60, of 0 3 4242 3]
  note tb = kill_wait_sigterm [OF nd e2, of 4242 0]
  note tc = kill_wait_sigterm [OF nd e60, of 0 62 4242 62]
  note td = kill_wait_sigterm [OF nd e60, of 0 100 4242 0]
  have "kill_wait default_args (kw_example 100 0 3) 4242 SIGTERM
     = (Inr (), Kill 4242 SIGTERM # replicate 3 (Usleep 100000))"
    by (rule ta [THEN conjunct2, THEN conjunct2, THEN conjunct1, THEN mp, OF a])
  moreover have "kill_wait default_args (kw_example 2 EPERM 100) 4242 SIGTERM
     = (Inl (KillFailed EPERM), Kill 4242 SIGTERM # replicate 2 (Usleep 100000) @ [Kill 4242 SIGKILL])"
    using tb [THEN conjunct2, THEN conjunct2, THEN conjunct2, THEN conjunct1, THEN mp, OF b]
    by (simp add: kw_example_def)
  moreover have "kill_wait default_args (kw_example 100 0 62) 4242 SIGTERM
     = (Inr (), Kill 4242 SIGTERM # replicate 60 (Usleep 100000)
          @ Kill 4242 SIGKILL # replicate 2 (Usleep 100000))"
    using tc [THEN conjunct2, THEN conjunct2, THEN conjunct2, THEN conjunct2, THEN conjunct1,
      THEN mp, OF c] by simp
  moreover have "kill_wait default_args (kw_example 100 0 100) 4242 SIGTERM
     = (Inl Timeout, Kill 4242 SIGTERM # replicate 60 (Usleep 100000)
          @ Kill 4242 SIGKILL # replicate 40 (Usleep 100000))"
    using td [THEN conjunct2, THEN conjunct2, THEN conjunct2, THEN conjunct2, THEN conjunct2,
      THEN mp, OF d] by simp
  ultimately show ?thesis
    by (intro conjI)
qed

section \<open>Properties of the emergency kill\<close>

lemma em_scan_named:
  "em_scan n es k = (k + int (length (named n es)), map (\<lambda>p. Kill p SIGKILL) (named n es))"
proof (induction es arbitrary: k)
  case Nil
  show ?case by (simp add: named_def)
next
  case (Cons e es)
  have ih: "em_scan n es k' = (k' + int (length (named n es)), map (\<lambda>p. Kill p SIGKILL) (named n es))"
    for k' by (rule Cons.IH)
  have nm: "named n (e # es) =
      (if isnumeric (d_name e) \<and> 1 < pid (cur_init e) \<and> 0 \<le> fst (r_comm e) \<and> snd (r_comm e) = n
       then pid (cur_init e) # named n es else named n es)"
    by (simp add: named_def)
  show ?case
    unfolding nm by (simp add: ih not_le not_less)
qed

lemma sent_from_simps:
  "sent_from args env i [] = []"
  "sent_from args env i (n # ns) =
     (if mem_high_percent args < MemAvailablePercent (em_meminfo env i) then []
      else named n (em_procs env i) @ sent_from args env (Suc i) ns)"
  by (simp_all add: sent_from_def)

lemma em_loop_sent:
  "em_loop args env i ns k =
     (k + int (length (sent_from args env i ns)), map (\<lambda>p. Kill p SIGKILL) (sent_from args env i ns))"
proof (induction ns arbitrary: i k)
  case Nil
  show ?case by (simp add: sent_from_simps)
next
  case (Cons n ns)
  show ?case
    by (simp add: sent_from_simps Let_def em_scan_named Cons.IH)
qed

lemma short_name_eq:
  assumes "length c < PROC_LEN_MAX"
  shows "c = hd (victim_names (t # ts)) \<longleftrightarrow> c = t"
proof (cases "length t < PROC_LEN_MAX")
  case True
  then show ?thesis by simp
next
  case False
  then have "length (hd (victim_names (t # ts))) \<ge> PROC_LEN_MAX"
    by simp
  then show ?thesis
    using assms False by auto
qed

lemma named_cong:
  assumes "\<forall>e \<in> set es. snd (r_comm e) = n \<longleftrightarrow> snd (r_comm e) = n'"
  shows "named n es = named n' es"
  unfolding named_def using assms by (intro arg_cong [where f = "map _"] filter_cong refl) auto

lemma sent_from_victim_names:
  assumes "\<forall>i. \<forall>e \<in> set (em_procs env i). length (snd (r_comm e)) < PROC_LEN_MAX"
  shows "sent_from args env i (victim_names ts) = sent_from args env i ts"
proof (induction ts arbitrary: i)
  case Nil
  show ?case by simp
next
  case (Cons t ts)
  have v: "victim_names (t # ts) = hd (victim_names (t # ts)) # victim_names ts"
    by simp
  have "named (hd (victim_names (t # ts))) (em_procs env i) = named t (em_procs env i)"
    using assms short_name_eq [of _ t ts] by (intro named_cong) auto
  then show ?case
    by (subst v) (simp add: sent_from_simps Cons.IH del: victim_names.simps)
qed



lemmas em_eval =
  em_example_def proc_entry_def php_cgi_proc_def conf_sample_args_def snapshot_pct_def
  named_def cur_init_def isnumeric_def isdigit_def pid_of_name_def
  strtok_all_def emerg_overflow_def EMERG_KILL_MAXLEN_def EMERG_LIST_MAX_def PROC_LEN_MAX_def


section \<open>The dry run\<close>

text \<open>
  Claim C6 says that with \<open>dryrun\<close> set no signal other than 0 is ever sent. \<open>kill_wait\<close>
  returns before its first \<open>kill\<close> under \<open>dryrun\<close>, but \<open>kill_emergency\<close> never looks at
  the flag. With the sample configuration and \<open>dryrun\<close> set, memory at 1 percent and swap
  at 0 percent, the first iteration of the loop takes the emergency path and calls
  \<open>kill(301, SIGKILL)\<close> and \<open>kill(302, SIGKILL)\<close>.
\<close>

theorem dryrun_emergency_sends_sigkill:
  "dryrun (conf_sample_args\<lparr>dryrun := True\<rparr>)
   \<and> out_action (snd (poll_iter exact_unit (conf_sample_args\<lparr>dryrun := True\<rparr>) (it_meminfo dryrun_example) (poll_init 0)))
       = Emergency
   \<and> map_option snd (poll_iter_events exact_unit (conf_sample_args\<lparr>dryrun := True\<rparr>) dryrun_example (poll_init 0))
       = Some [Kill 301 SIGKILL, Kill 302 SIGKILL, Usleep 2000000]"
proof -
  let ?args = "conf_sample_args\<lparr>dryrun := True\<rparr>"
  have h: "emerg_kill ?args = Some ''doveadm,php-cgi,zip,dovecot,httpd,php-fpm,restic,nginx''"
    "\<not> emerg_overflow ''doveadm,php-cgi,zip,dovecot,httpd,php-fpm,restic,nginx''"
    "\<forall>i. \<forall>e \<in> set (em_procs em_example i). length (snd (r_comm e)) < PROC_LEN_MAX"
    by (simp_all add: em_eval)
  have "concat (map (\<lambda>(i, n). named n (em_procs em_example i))
      (processed ?args em_example 0
         (strtok_all ''doveadm,php-cgi,zip,dovecot,httpd,php-fpm,restic,nginx''))) = [301, 302]"
    by (simp add: em_eval)
  then have k: "kill_emergency ?args em_example = Some (2, [Kill 301 SIGKILL, Kill 302 SIGKILL])"
    using em_loop_sent [of ?args em_example 0] sent_from_victim_names [OF h(3), of ?args 0]
    by (simp add: kill_emergency_def h sent_from_def)
  have a: "out_action (snd (poll_iter exact_unit ?args (it_meminfo dryrun_example) (poll_init 0))) = Emergency"
    "out_usleep (snd (poll_iter exact_unit ?args (it_meminfo dryrun_example) (poll_init 0))) = 2000000"
    by (simp_all add: dryrun_example_def poll_eval)
  show ?thesis
    using a k by (simp add: poll_iter_events_def Let_def dryrun_example_def)
qed

lemma dryrun_kill_wait_sends_nothing:
  "dryrun args \<Longrightarrow> sg \<noteq> 0 \<Longrightarrow> kill_wait args env p sg = (Inr (), [])"
  by (simp add: kill_wait_def)

text \<open>
  The other path honours the flag: under \<open>dryrun\<close>, \<open>kill_largest_process\<close> with a signal
  other than 0 makes no call of \<open>kill\<close> at all.
\<close>

theorem dryrun_kill_largest_no_signal:
  "dryrun args \<and> sg \<noteq> 0 \<longrightarrow> (\<forall>p s. Kill p s \<notin> set (kill_largest_process args env sg))"
  by (auto simp: kill_largest_process_def Let_def dryrun_kill_wait_sends_nothing)

theorem dryrun_kill_largest_no_signal_witness:
  "dryrun (conf_sample_args\<lparr>dryrun := True\<rparr>) \<and> SIGKILL \<noteq> 0
   \<and> (\<forall>p s. Kill p s \<notin> set (kill_largest_process (conf_sample_args\<lparr>dryrun := True\<rparr>)
          (it_largest dryrun_example) SIGKILL))"
proof -
  have h: "dryrun (conf_sample_args\<lparr>dryrun := True\<rparr>) \<and> SIGKILL \<noteq> 0"
    by (simp add: SIGKILL_def)
  show ?thesis
    using dryrun_kill_largest_no_signal [THEN mp, OF h] h by blast
qed

end
